theory Spec2Isabelle
  imports Complex_Main
begin

section \<open>Time\<close>

text \<open>
  Go's \<^verbatim>\<open>time.Time\<close> is modelled as the integer number of nanoseconds since Go's zero
  time instant (the reference point of \<^verbatim>\<open>Truncate\<close>), and \<^verbatim>\<open>time.Duration\<close> as an
  \<^verbatim>\<open>int64\<close> count of nanoseconds. The configuration widths are \<^verbatim>\<open>int64\<close> seconds; the
  product \<^verbatim>\<open>time.Duration(w) * time.Second\<close> wraps around as Go's multiplication does, and
  \<^verbatim>\<open>Time.Sub\<close> saturates at the least and the greatest duration as Go's does. The
  timestamps carry no monotonic clock reading and share one location, so that \<^verbatim>\<open>==\<close> on
  them (the key comparison of a map) is equality of instants. The range of
  \<^verbatim>\<open>time.Time\<close> itself (64 bits of seconds) is not modelled: instants are unbounded.
\<close>

type_synonym time = int
type_synonym duration = int

definition Second :: duration where
  "Second = 1000000000"

definition minDuration :: duration where
  "minDuration = - (2 ^ 63)"

definition maxDuration :: duration where
  "maxDuration = 2 ^ 63 - 1"

definition wrap64 :: "int \<Rightarrow> int" where
  "wrap64 x = (x + 2 ^ 63) mod 2 ^ 64 - 2 ^ 63"

text \<open>\<^verbatim>\<open>time.Duration(n) * time.Second\<close>\<close>

definition seconds :: "int \<Rightarrow> duration" where
  "seconds n = wrap64 (n * Second)"

text \<open>\<^verbatim>\<open>t.Sub(u)\<close>, \<^verbatim>\<open>t.Add(d)\<close>, \<^verbatim>\<open>t.After(u)\<close>, \<^verbatim>\<open>t.Equal(u)\<close>, \<^verbatim>\<open>t.Truncate(d)\<close>\<close>

definition time_Sub :: "time \<Rightarrow> time \<Rightarrow> duration" where
  "time_Sub t u =
     (if t - u < minDuration then minDuration
      else if maxDuration < t - u then maxDuration
      else t - u)"

definition time_Add :: "time \<Rightarrow> duration \<Rightarrow> time" where
  "time_Add t d = t + d"

definition time_After :: "time \<Rightarrow> time \<Rightarrow> bool" where
  "time_After t u = (u < t)"

definition time_Equal :: "time \<Rightarrow> time \<Rightarrow> bool" where
  "time_Equal t u = (t = u)"

definition time_Truncate :: "time \<Rightarrow> duration \<Rightarrow> time" where
  "time_Truncate t d = (if d \<le> 0 then t else t - t mod d)"

text \<open>Go's integer division \<^verbatim>\<open>a / b\<close> truncates towards zero.\<close>

definition quo :: "int \<Rightarrow> int \<Rightarrow> int" where
  "quo a b = sgn a * sgn b * (\<bar>a\<bar> div \<bar>b\<bar>)"

section \<open>Data model\<close>

text \<open>
  Modelled from the spec: the declarations of \<^verbatim>\<open>Metric\<close>, \<^verbatim>\<open>Window\<close>, \<^verbatim>\<open>ruling\<close>,
  \<^verbatim>\<open>span\<close> and \<^verbatim>\<open>Bin\<close> are not among the source files; the records below carry the
  fields the source reads and writes, with the names it uses. The \<^verbatim>\<open>float64\<close> payloads
  are a type parameter \<open>'v\<close>: the code only adds them, compares them with zero and hands
  them to the statistics library, so the operations are those of the type classes
  \<open>plus\<close>, \<open>zero\<close> and \<open>ord\<close>, of which no law is assumed. The passthrough payload is a
  type parameter \<open>'p\<close>.
\<close>

record ('v, 'p) Metric =
  Series :: string
  Timestamp :: time
  Value :: 'v
  Passthrough :: 'p

record ('v, 'p) Window =
  Series :: string
  Start :: time
  End :: time
  Value :: 'v
  Passthrough :: 'p

section \<open>WindowFilter (window\_filter.go)\<close>

record WindowConfig =
  WindowWidth :: int

record ('v, 'p) WindowFilter =
  windows :: "string \<rightharpoonup> ('v, 'p) Window"
  WindowConfig :: WindowConfig

definition WindowFilter_Init :: "WindowConfig \<Rightarrow> string + ('v, 'p) WindowFilter" where
  "WindowFilter_Init config =
     (if WindowWidth config \<le> 0
      then Inl ''window_width setting must be greater than zero.''
      else Inr \<lparr>windows = Map.empty, WindowConfig = config\<rparr>)"

text \<open>
  \<^verbatim>\<open>flushWindow\<close> adds one window width to the end, sends the window, and resets the
  accumulator to the zero window that keeps the series and the passthrough. The result
  is the window sent and the accumulator after the reset.
\<close>

definition flushWindow ::
  "('v::zero, 'p) WindowFilter \<Rightarrow> ('v, 'p) Window \<Rightarrow> ('v, 'p) Window \<times> ('v, 'p) Window" where
  "flushWindow f window =
     (let sent = window\<lparr>End := time_Add (End window) (seconds (WindowWidth (WindowConfig f)))\<rparr>
      in (sent,
          \<lparr>Series = Window.Series sent, Start = 0, End = 0, Value = 0,
           Passthrough = Window.Passthrough sent\<rparr>))"

text \<open>The accumulator of the metric's series, created from the metric when there is none.\<close>

definition windowFor :: "('v::zero, 'p) WindowFilter \<Rightarrow> ('v, 'p) Metric \<Rightarrow> ('v, 'p) Window" where
  "windowFor f metric =
     (case windows f (Metric.Series metric) of
        Some window \<Rightarrow> window
      | None \<Rightarrow>
          \<lparr>Series = Metric.Series metric, Start = Timestamp metric, End = 0, Value = 0,
           Passthrough = Metric.Passthrough metric\<rparr>)"

text \<open>\<^verbatim>\<open>int64(windowAge/time.Second)\<close>\<close>

definition windowAge_seconds :: "('v, 'p) Metric \<Rightarrow> ('v, 'p) Window \<Rightarrow> int" where
  "windowAge_seconds metric window = quo (time_Sub (Timestamp metric) (Start window)) Second"

text \<open>One iteration of the loop of \<^verbatim>\<open>Connect\<close>: the filter afterwards and the windows sent.\<close>

definition WindowFilter_step ::
  "('v::{plus,zero}, 'p) WindowFilter \<Rightarrow> ('v, 'p) Metric \<Rightarrow>
   ('v, 'p) WindowFilter \<times> ('v, 'p) Window list" where
  "WindowFilter_step f metric =
     (let window = windowFor f metric;
          (out, window) =
            (if WindowWidth (WindowConfig f) \<le> windowAge_seconds metric window
             then (let (sent, window) = flushWindow f window
                   in ([sent], window\<lparr>Start := Timestamp metric\<rparr>))
             else ([], window));
          window = window\<lparr>Value := Window.Value window + Metric.Value metric,
                          End := Timestamp metric\<rparr>
      in (f\<lparr>windows := (windows f)(Metric.Series metric \<mapsto> window)\<rparr>, out))"

fun WindowFilter_Connect ::
  "('v::{plus,zero}, 'p) WindowFilter \<Rightarrow> ('v, 'p) Metric list \<Rightarrow>
   ('v, 'p) WindowFilter \<times> ('v, 'p) Window list" where
  "WindowFilter_Connect f [] = (f, [])"
| "WindowFilter_Connect f (metric # metrics) =
     (let (f', out) = WindowFilter_step f metric;
          (f'', outs) = WindowFilter_Connect f' metrics
      in (f'', out @ outs))"

section \<open>gatherFilter\<close>

text \<open>
  Modelled from the spec: the \<^verbatim>\<open>ruling\<close> is a window with the classifier's verdict and
  fields that are read by name. \<open>FieldByName\<close> is the view \<^verbatim>\<open>reflect\<close> gives of the
  struct: no entry for a name the struct does not have, \<open>FloatField\<close> for a field of a
  floating-point kind, \<open>OtherField\<close> for a field of any other kind (such as
  \<^verbatim>\<open>Window\<close> and \<^verbatim>\<open>Anomalous\<close> themselves).
\<close>

datatype 'v fieldval = FloatField 'v | OtherField

record ('v, 'p) ruling =
  Window :: "('v, 'p) Window"
  Anomalous :: bool
  FieldByName :: "string \<rightharpoonup> 'v fieldval"

record ('v, 'p) span =
  Series :: string
  Values :: "'v list"
  Start :: time
  End :: time
  Duration :: duration
  Score :: 'v
  Passthrough :: 'p

text \<open>
  The statistics library is outside the repository. Its five functions are named by a
  datatype, and what they compute is a parameter \<open>stats\<close> of the functions that call
  them: \<open>stats g xs\<close> is \<open>Inr\<close> the statistic or \<open>Inl\<close> the library's error.
\<close>

datatype statsFunc = stats_Sum | stats_Mean | stats_Median | stats_Midhinge | stats_Trimean

type_synonym 'v statsLib = "statsFunc \<Rightarrow> 'v list \<Rightarrow> string + 'v"

definition defaultAggregator :: string where
  "defaultAggregator = ''Sum''"

definition defaultValueField :: string where
  "defaultValueField = ''normed''"

definition aggFunctions :: "string \<rightharpoonup> statsFunc" where
  "aggFunctions = map_of
     [(''Sum'', stats_Sum),
      (''Mean'', stats_Mean),
      (''Median'', stats_Median),
      (''Midhinge'', stats_Midhinge),
      (''Trimean'', stats_Trimean)]"

record GatherConfig =
  Disabled :: bool
  SpanWidth :: int
  Statistic :: string
  ValueField :: string
  LastDate :: string

record ('v, 'p) spanCache =
  spans :: "string \<rightharpoonup> ('v, 'p) span"
  nows :: "string \<rightharpoonup> time"

record ('v, 'p) gatherFilter =
  GatherConfig :: GatherConfig
  aggregator :: statsFunc
  spanCache :: "('v, 'p) spanCache"
  lastDate :: time

definition ConfigStruct :: GatherConfig where
  "ConfigStruct =
     \<lparr>Disabled = False, SpanWidth = 0, Statistic = defaultAggregator,
      ValueField = defaultValueField, LastDate = []\<rparr>"

text \<open>
  \<^verbatim>\<open>aggFunctions[defaultAggregator]\<close> is a plain map read; the default name is a key of
  the table.
\<close>

definition getAggregator :: "('v, 'p) gatherFilter \<Rightarrow> statsFunc" where
  "getAggregator f =
     (if Statistic (GatherConfig f) = [] then the (aggFunctions defaultAggregator)
      else (case aggFunctions (Statistic (GatherConfig f)) of
              Some g \<Rightarrow> g
            | None \<Rightarrow> the (aggFunctions defaultAggregator)))"

text \<open>
  \<^verbatim>\<open>Init\<close> writes to its receiver and returns an error or \<^verbatim>\<open>nil\<close>: the result is the
  error, if any, and the receiver afterwards. The clock reading \<^verbatim>\<open>time.Now()\<close> and
  \<^verbatim>\<open>time.Parse(time.RFC3339, _)\<close> are parameters.
\<close>

definition gatherFilter_Init ::
  "time \<Rightarrow> (string \<Rightarrow> string + time) \<Rightarrow> ('v, 'p) gatherFilter \<Rightarrow> GatherConfig \<Rightarrow>
   string option \<times> ('v, 'p) gatherFilter" where
  "gatherFilter_Init time_Now time_Parse f config =
     (let f = f\<lparr>GatherConfig := config\<rparr>;
          finish = (\<lambda>f. let f = f\<lparr>aggregator := getAggregator f\<rparr>
                       in (None, f\<lparr>spanCache := \<lparr>spans = Map.empty, nows = Map.empty\<rparr>\<rparr>))
      in if Disabled (GatherConfig f) then (None, f)
         else if SpanWidth (GatherConfig f) \<le> 0
         then (Some ''span_width must be greater than zero.'', f)
         else if LastDate (GatherConfig f) = ''today''
         then finish (f\<lparr>lastDate := time_Now\<rparr>)
         else if LastDate (GatherConfig f) = ''yesterday''
         then finish (f\<lparr>lastDate := time_Add time_Now (- 1 * 24 * (3600 * Second))\<rparr>)
         else (case time_Parse (LastDate (GatherConfig f)) of
                 Inl err \<Rightarrow> (Some err, f)
               | Inr d \<Rightarrow> finish (f\<lparr>lastDate := d\<rparr>)))"

text \<open>
  \<^verbatim>\<open>getRulingValue\<close>: \<open>None\<close> is the run-time panic of \<^verbatim>\<open>Value.Float\<close> on a field that
  is not of a floating-point kind; otherwise the error or the value.
\<close>

definition getRulingValue :: "('v, 'p) gatherFilter \<Rightarrow> ('v, 'p) ruling \<Rightarrow> (string + 'v) option" where
  "getRulingValue f ruling =
     (case FieldByName ruling (ValueField (GatherConfig f)) of
        None \<Rightarrow> Some (Inl ''Ruling did not contain field.'')
      | Some OtherField \<Rightarrow> None
      | Some (FloatField v) \<Rightarrow> Some (Inr v))"

text \<open>
  Modelled from the spec: \<^verbatim>\<open>span.CalcScore\<close> is declared with the \<^verbatim>\<open>span\<close> type, outside
  the source files. It applies the aggregate statistic to the magnitude sequence and
  stores the score, or returns the statistic's error.
\<close>

definition CalcScore :: "('v list \<Rightarrow> string + 'v) \<Rightarrow> ('v, 'p) span \<Rightarrow> string + ('v, 'p) span" where
  "CalcScore agg sp =
     (case agg (Values sp) of
        Inl err \<Rightarrow> Inl err
      | Inr score \<Rightarrow> Inr (sp\<lparr>Score := score\<rparr>))"

definition SpanExpired :: "('v, 'p) gatherFilter \<Rightarrow> ('v, 'p) span \<Rightarrow> time \<Rightarrow> bool" where
  "SpanExpired f sp now =
     (let willExpireAt = time_Add (span.End sp) (seconds (SpanWidth (GatherConfig f)));
          isExpired = time_After now willExpireAt;
          outOfData = (time_Equal willExpireAt (lastDate f) \<or> time_After willExpireAt (lastDate f))
      in isExpired \<or> outOfData)"

text \<open>
  \<^verbatim>\<open>flushSpan\<close> writes the duration (and, when the statistic succeeds, the score) into
  the span it is given and sends it unless the statistic failed: the result is the span
  afterwards and the spans sent.
\<close>

definition flushSpan ::
  "'v statsLib \<Rightarrow> ('v, 'p) gatherFilter \<Rightarrow> ('v, 'p) span \<Rightarrow> ('v, 'p) span \<times> ('v, 'p) span list" where
  "flushSpan stats f sp =
     (let sp = sp\<lparr>Duration := time_Sub (span.End sp) (span.Start sp)\<rparr>
      in case CalcScore (stats (aggregator f)) sp of
           Inl err \<Rightarrow> (sp, [])
         | Inr sp \<Rightarrow> (sp, [sp]))"

text \<open>
  \<^verbatim>\<open>FlushSpan\<close> gets a pointer to a span of the cache; \<open>key\<close> is where the cache holds
  it, so that what \<^verbatim>\<open>flushSpan\<close> wrote is in the cache before the entries of the span's
  own series are deleted.
\<close>

definition FlushSpan ::
  "'v statsLib \<Rightarrow> ('v, 'p) gatherFilter \<Rightarrow> string \<Rightarrow> ('v, 'p) span \<Rightarrow>
   ('v, 'p) gatherFilter \<times> ('v, 'p) span list" where
  "FlushSpan stats f key sp =
     (let (sp, out) = flushSpan stats f sp;
          cache = spanCache f;
          cache = cache\<lparr>spans := (spans cache)(key \<mapsto> sp)\<rparr>;
          cache = cache\<lparr>spans := (spans cache)(span.Series sp := None)\<rparr>;
          cache = cache\<lparr>nows := (nows cache)(span.Series sp := None)\<rparr>
      in (f\<lparr>spanCache := cache\<rparr>, out))"

definition newSpan :: "string \<Rightarrow> 'v \<Rightarrow> ('v, 'p) ruling \<Rightarrow> ('v::zero, 'p) span" where
  "newSpan thisSeries v ruling =
     \<lparr>Series = thisSeries, Values = [v], Start = Window.Start (Window ruling),
      End = Window.End (Window ruling), Duration = 0, Score = 0,
      Passthrough = Window.Passthrough (Window ruling)\<rparr>"

text \<open>
  The test of \<^verbatim>\<open>Connect\<close> for an anomaly that has the sign of the span, on the first
  magnitude of the span and the magnitude of the ruling.
\<close>

definition sameSign :: "'v::{ord,zero} \<Rightarrow> 'v \<Rightarrow> bool" where
  "sameSign v0 v = (v0 \<ge> 0 \<and> v \<ge> 0 \<or> v0 < 0 \<and> v < 0)"

text \<open>
  One iteration of the loop of \<^verbatim>\<open>Connect\<close>, under the lock of the cache: the filter
  afterwards and the spans sent, or \<open>None\<close> for a run-time panic (\<^verbatim>\<open>s.Values[0]\<close> on an
  empty sequence, or the panic of \<^verbatim>\<open>getRulingValue\<close>).
\<close>

definition gatherFilter_step ::
  "'v statsLib \<Rightarrow> ('v::{ord,zero}, 'p) gatherFilter \<Rightarrow> ('v, 'p) ruling \<Rightarrow>
   (('v, 'p) gatherFilter \<times> ('v, 'p) span list) option" where
  "gatherFilter_step stats f ruling =
     (let thisSeries = Window.Series (Window ruling);
          now = Window.End (Window ruling);
          f = f\<lparr>spanCache := (spanCache f)\<lparr>nows := (nows (spanCache f))(thisSeries \<mapsto> now)\<rparr>\<rparr>
      in case getRulingValue f ruling of
           None \<Rightarrow> None
         | Some (Inl err) \<Rightarrow> Some (f, [])
         | Some (Inr v) \<Rightarrow>
             (case spans (spanCache f) thisSeries of
                Some s \<Rightarrow>
                  if Anomalous ruling
                  then (case Values s of
                          [] \<Rightarrow> None
                        | v0 # _ \<Rightarrow>
                            if sameSign v0 v
                            then Some (f\<lparr>spanCache := (spanCache f)\<lparr>spans := (spans (spanCache f))
                                         (thisSeries \<mapsto> s\<lparr>Values := Values s @ [v], End := now\<rparr>)\<rparr>\<rparr>, [])
                            else (let (f, out) = FlushSpan stats f thisSeries s
                                  in Some (f\<lparr>spanCache := (spanCache f)\<lparr>spans := (spans (spanCache f))
                                              (thisSeries \<mapsto> newSpan thisSeries v ruling)\<rparr>\<rparr>, out)))
                  else if SpanExpired f s now
                  then Some (FlushSpan stats f thisSeries s)
                  else Some (f\<lparr>spanCache := (spanCache f)\<lparr>spans := (spans (spanCache f))
                               (thisSeries \<mapsto> s\<lparr>Values := Values s @ [v]\<rparr>)\<rparr>\<rparr>, [])
              | None \<Rightarrow>
                  if Anomalous ruling
                  then Some (f\<lparr>spanCache := (spanCache f)\<lparr>spans := (spans (spanCache f))
                               (thisSeries \<mapsto> newSpan thisSeries v ruling)\<rparr>\<rparr>, [])
                  else Some (f, [])))"

fun gatherFilter_Connect ::
  "'v statsLib \<Rightarrow> ('v::{ord,zero}, 'p) gatherFilter \<Rightarrow> ('v, 'p) ruling list \<Rightarrow>
   (('v, 'p) gatherFilter \<times> ('v, 'p) span list) option" where
  "gatherFilter_Connect stats f [] = Some (f, [])"
| "gatherFilter_Connect stats f (ruling # rulings) =
     (case gatherFilter_step stats f ruling of
        None \<Rightarrow> None
      | Some (f', out) \<Rightarrow>
          (case gatherFilter_Connect stats f' rulings of
             None \<Rightarrow> None
           | Some (f'', outs) \<Rightarrow> Some (f'', out @ outs)))"

section \<open>BinFilter\<close>

text \<open>
  Modelled from the spec: the \<^verbatim>\<open>AnomalousSpan\<close> that the bin filter receives is the
  finished span of the gather filter (it reads the series, the start and the end); a
  \<^verbatim>\<open>Bin\<close> has a start, an end, a count and the list of the series that touched it, and
  \<^verbatim>\<open>Bins\<close> maps a bin's start to the bin.
\<close>

record Bin =
  Start :: time
  End :: time
  Count :: int
  Entries :: "string list"

record BinConfig =
  BinWidth :: int

record BinFilter =
  bins :: "time \<rightharpoonup> Bin"
  BinConfig :: BinConfig

definition BinFilter_Init :: "BinConfig \<Rightarrow> string + BinFilter" where
  "BinFilter_Init config =
     (if BinWidth config \<le> 0
      then Inl ''bin_width setting must be greater than zero.''
      else Inr \<lparr>bins = Map.empty, BinConfig = config\<rparr>)"

text \<open>
  The loop of \<^verbatim>\<open>spanToBins\<close>. Nothing in it bounds the number of iterations, so it is a
  partial function: \<open>None\<close> is the loop that never exits. The slice \<^verbatim>\<open>bins\<close> of the
  source is \<open>bs\<close>.
\<close>

partial_function (option) spanToBins_loop ::
  "duration \<Rightarrow> time \<Rightarrow> time \<Rightarrow> time list \<Rightarrow> time list option" where
  "spanToBins_loop binWidth spanEnd now bs =
     (if \<not> time_After now spanEnd
      then spanToBins_loop binWidth spanEnd (time_Add now binWidth) (bs @ [now])
      else Some bs)"

definition spanToBins :: "BinFilter \<Rightarrow> ('v, 'p) span \<Rightarrow> time list option" where
  "spanToBins f sp =
     (let binWidth = seconds (BinWidth (BinConfig f));
          bs = [];
          now = time_Truncate (span.Start sp) binWidth
      in spanToBins_loop binWidth (span.End sp) now bs)"

text \<open>
  The body of the inner loop of \<^verbatim>\<open>Connect\<close>, one touch of the bin that starts at
  \<open>binTime\<close>. \<open>touchBin\<close> is the bin after the touch: the bin of the map, or a new one
  with the zero count and no entries, with the count incremented and the series
  appended. \<open>BinFilter_touch\<close> stores it and sends the snapshot: the filter and the
  snapshots sent so far, before and after.
\<close>

definition touchBin :: "duration \<Rightarrow> string \<Rightarrow> BinFilter \<Rightarrow> time \<Rightarrow> Bin" where
  "touchBin binWidth series f binTime =
     (let bin = (case bins f binTime of
                   Some bin \<Rightarrow> bin
                 | None \<Rightarrow> \<lparr>Start = binTime, End = time_Add binTime binWidth, Count = 0, Entries = []\<rparr>)
      in bin\<lparr>Count := Count bin + 1, Entries := Entries bin @ [series]\<rparr>)"

definition BinFilter_touch ::
  "duration \<Rightarrow> string \<Rightarrow> BinFilter \<times> Bin list \<Rightarrow> time \<Rightarrow> BinFilter \<times> Bin list" where
  "BinFilter_touch binWidth series = (\<lambda>(f, out) binTime.
     (let bin = touchBin binWidth series f binTime
      in (f\<lparr>bins := (bins f)(binTime \<mapsto> bin)\<rparr>, out @ [bin])))"

text \<open>
  \<^verbatim>\<open>Connect\<close> on the spans received: the filter afterwards and the snapshots sent, or
  \<open>None\<close> when \<^verbatim>\<open>spanToBins\<close> does not return for one of them.
\<close>

definition BinFilter_step ::
  "BinFilter \<Rightarrow> ('v, 'p) span \<Rightarrow> (BinFilter \<times> Bin list) option" where
  "BinFilter_step f sp =
     (let binWidth = seconds (BinWidth (BinConfig f))
      in case spanToBins f sp of
           None \<Rightarrow> None
         | Some binTimes \<Rightarrow> Some (foldl (BinFilter_touch binWidth (span.Series sp)) (f, []) binTimes))"

fun BinFilter_Connect ::
  "BinFilter \<Rightarrow> ('v, 'p) span list \<Rightarrow> (BinFilter \<times> Bin list) option" where
  "BinFilter_Connect f [] = Some (f, [])"
| "BinFilter_Connect f (sp # sps) =
     (case BinFilter_step f sp of
        None \<Rightarrow> None
      | Some (f', out) \<Rightarrow>
          (case BinFilter_Connect f' sps of
             None \<Rightarrow> None
           | Some (f'', outs) \<Rightarrow> Some (f'', out @ outs)))"

text \<open>
  The invariant of a bin snapshot: the count is at least one and is the number of the
  contributing series listed.
\<close>

definition snapshotCounted :: "Bin \<Rightarrow> bool" where
  "snapshotCounted b = (1 \<le> Count b \<and> Count b = int (length (Entries b)))"

section \<open>Example data\<close>

text \<open>
  The data of the worked examples: magnitudes are real numbers, the statistics library
  answers the sum or the mean of a sequence that is not empty and its error on the empty
  one (the three quartile statistics are not part of the examples), the filter is
  configured with a span width of ten seconds, the sum, the field \<^verbatim>\<open>normed\<close> and a last
  date 1000 seconds after the zero time; the rulings carry the field \<^verbatim>\<open>normed\<close>; the
  window filter has a window width of 30 seconds and no accumulator.
\<close>

definition exampleStats :: "real statsLib" where
  "exampleStats g xs =
     (if xs = [] then Inl ''Input must not be empty.''
      else if g = stats_Sum then Inr (sum_list xs)
      else if g = stats_Mean then Inr (sum_list xs / of_nat (length xs))
      else Inl ''not part of the examples'')"

definition exampleFilter :: "(real, unit) gatherFilter" where
  "exampleFilter =
     \<lparr>GatherConfig = \<lparr>Disabled = False, SpanWidth = 10, Statistic = ''Sum'',
                       ValueField = ''normed'', LastDate = ''0001-01-01T00:16:40Z''\<rparr>,
      aggregator = stats_Sum,
      spanCache = \<lparr>spans = Map.empty, nows = Map.empty\<rparr>,
      lastDate = 1000000000000\<rparr>"

definition exampleRuling ::
  "string \<Rightarrow> time \<Rightarrow> time \<Rightarrow> bool \<Rightarrow> real \<Rightarrow> (real, unit) ruling" where
  "exampleRuling series t0 t1 anomalous v =
     \<lparr>Window = \<lparr>Window.Series = series, Window.Start = t0, Window.End = t1,
                Window.Value = v, Window.Passthrough = ()\<rparr>,
      Anomalous = anomalous,
      FieldByName = [''normed'' \<mapsto> FloatField v]\<rparr>"

definition exampleMetric :: "string \<Rightarrow> time \<Rightarrow> real \<Rightarrow> (real, unit) Metric" where
  "exampleMetric series t v =
     \<lparr>Metric.Series = series, Timestamp = t, Metric.Value = v, Metric.Passthrough = ()\<rparr>"

definition exampleWindowFilter :: "(real, unit) WindowFilter" where
  "exampleWindowFilter = \<lparr>windows = Map.empty, WindowConfig = \<lparr>WindowWidth = 30\<rparr>\<rparr>"

section \<open>Arithmetic of durations\<close>

lemma wrap64_id: "- (2 ^ 63) \<le> x \<Longrightarrow> x < 2 ^ 63 \<Longrightarrow> wrap64 x = x"
  by (simp add: wrap64_def)

lemma quo_nonneg: "0 \<le> a \<Longrightarrow> 0 < b \<Longrightarrow> quo a b = a div b"
  by (cases "a = 0") (simp_all add: quo_def)

lemma quo_neg: "a < 0 \<Longrightarrow> 0 < b \<Longrightarrow> quo a b \<le> 0"
  by (simp add: quo_def mult_le_0_iff pos_imp_zdiv_nonneg_iff)

lemma windowAge_seconds_le: "windowAge_seconds metric window \<le> 9223372036"
proof -
  let ?a = "time_Sub (Timestamp metric) (Window.Start window)"
  have le: "?a \<le> 9223372036854775807"
    by (simp add: time_Sub_def minDuration_def maxDuration_def)
  show ?thesis
  proof (cases "0 \<le> ?a")
    case True
    then have "quo ?a Second = ?a div 1000000000"
      by (simp add: quo_nonneg Second_def)
    also have "\<dots> \<le> 9223372036854775807 div 1000000000"
      using le by (rule zdiv_mono1) simp
    finally show ?thesis by (simp add: windowAge_seconds_def)
  next
    case False
    then have "quo ?a Second \<le> 0"
      by (simp add: quo_neg Second_def)
    then show ?thesis by (simp add: windowAge_seconds_def)
  qed
qed

lemma seconds_width:
  assumes "0 < w" and "w \<le> windowAge_seconds metric window"
  shows "seconds w = w * Second"
proof -
  have "w \<le> 9223372036"
    using assms(2) windowAge_seconds_le [of metric window] by linarith
  with assms(1) show ?thesis
    by (simp add: seconds_def Second_def wrap64_id)
qed

section \<open>The window filter rolls over one window per arrival\<close>

lemma WindowFilter_step_absorb:
  assumes "windows f (Metric.Series metric) = Some window"
    and "windowAge_seconds metric window < WindowWidth (WindowConfig f)"
  shows "WindowFilter_step f metric =
    (f\<lparr>windows := (windows f)(Metric.Series metric \<mapsto>
         window\<lparr>Window.Value := Window.Value window + Metric.Value metric, Window.End := Timestamp metric\<rparr>)\<rparr>, [])"
  using assms by (simp add: WindowFilter_step_def windowFor_def)

lemma WindowFilter_step_rollover:
  assumes "windows f (Metric.Series metric) = Some window"
    and "0 < WindowWidth (WindowConfig f)"
    and "WindowWidth (WindowConfig f) \<le> windowAge_seconds metric window"
  shows "WindowFilter_step f metric =
    (f\<lparr>windows := (windows f)(Metric.Series metric \<mapsto>
         \<lparr>Window.Series = Window.Series window, Window.Start = Timestamp metric, Window.End = Timestamp metric,
          Window.Value = 0 + Metric.Value metric, Window.Passthrough = Window.Passthrough window\<rparr>)\<rparr>,
     [window\<lparr>Window.End := Window.End window + WindowWidth (WindowConfig f) * Second\<rparr>])"
  using assms seconds_width [OF assms(2,3)]
  by (simp add: WindowFilter_step_def windowFor_def flushWindow_def time_Add_def)

lemma time_Sub_self: "time_Sub t t = 0"
  by (simp add: time_Sub_def minDuration_def maxDuration_def)

lemma WindowFilter_step_create:
  assumes "windows f (Metric.Series metric) = None"
    and "0 < WindowWidth (WindowConfig f)"
  shows "WindowFilter_step f metric =
    (f\<lparr>windows := (windows f)(Metric.Series metric \<mapsto>
         \<lparr>Window.Series = Metric.Series metric, Window.Start = Timestamp metric, Window.End = Timestamp metric,
          Window.Value = 0 + Metric.Value metric, Window.Passthrough = Metric.Passthrough metric\<rparr>)\<rparr>, [])"
  using assms
  by (simp add: WindowFilter_step_def windowFor_def windowAge_seconds_def time_Sub_self quo_def)

lemma windowAge_seconds_absorbed [simp]:
  "windowAge_seconds m (window\<lparr>Window.Value := v, Window.End := e\<rparr>) = windowAge_seconds m window"
  by (simp add: windowAge_seconds_def)

lemma WindowFilter_Connect_absorb:
  assumes "windows f s = Some window"
    and "\<forall>m\<in>set ms. Metric.Series m = s \<and> windowAge_seconds m window < WindowWidth (WindowConfig f)"
  shows "WindowFilter_Connect f ms =
    (f\<lparr>windows := (windows f)(s \<mapsto>
         window\<lparr>Window.Value := foldl (+) (Window.Value window) (map Metric.Value ms),
                Window.End := last (Window.End window # map Timestamp ms)\<rparr>)\<rparr>, [])"
  using assms
proof (induction ms arbitrary: f window)
  case Nil
  then show ?case by (simp add: map_upd_triv)
next
  case (Cons m ms)
  let ?w = "window\<lparr>Window.Value := Window.Value window + Metric.Value m, Window.End := Timestamp m\<rparr>"
  let ?f = "f\<lparr>windows := (windows f)(s \<mapsto> ?w)\<rparr>"
  have step: "WindowFilter_step f m = (?f, [])"
    using Cons.prems WindowFilter_step_absorb [of f m window] by simp
  let ?w' = "?w\<lparr>Window.Value := foldl (+) (Window.Value ?w) (map Metric.Value ms),
                   Window.End := last (Window.End ?w # map Timestamp ms)\<rparr>"
  have IH: "WindowFilter_Connect ?f ms = (?f\<lparr>windows := (windows ?f)(s \<mapsto> ?w')\<rparr>, [])"
    using Cons.prems by (intro Cons.IH) simp_all
  have upd: "?f\<lparr>windows := (windows ?f)(s \<mapsto> X)\<rparr> = f\<lparr>windows := (windows f)(s \<mapsto> X)\<rparr>" for X
    by simp
  have w': "?w' = window\<lparr>Window.Value := foldl (+) (Window.Value window) (map Metric.Value (m # ms)),
                Window.End := last (Window.End window # map Timestamp (m # ms))\<rparr>"
    by simp
  have "WindowFilter_Connect f (m # ms) = (?f\<lparr>windows := (windows ?f)(s \<mapsto> ?w')\<rparr>, [])"
    by (simp add: step IH del: fun_upd_apply)
  then show ?case
    by (simp only: upd w')
qed

text \<open>
  A stream of one series: from the metric \<open>m0\<close> that starts an accumulator to the
  metric \<open>m'\<close> that rolls it over.
\<close>

lemma WindowFilter_rollover_one_series:
  fixes f :: "('v::{plus,zero}, 'p) WindowFilter"
  assumes W: "0 < WindowWidth (WindowConfig f)"
    and start: "windows f (Metric.Series m0) = None \<or>
                WindowWidth (WindowConfig f) \<le> windowAge_seconds m0 (windowFor f m0)"
    and run: "\<forall>m\<in>set ms. Metric.Series m = Metric.Series m0 \<and>
                quo (time_Sub (Timestamp m) (Timestamp m0)) Second < WindowWidth (WindowConfig f)"
    and trigger: "Metric.Series m' = Metric.Series m0"
                 "WindowWidth (WindowConfig f) \<le> quo (time_Sub (Timestamp m') (Timestamp m0)) Second"
  shows "snd (WindowFilter_Connect f (m0 # ms)) = snd (WindowFilter_step f m0) \<and>
    WindowFilter_Connect f (m0 # ms @ [m']) =
      (f\<lparr>windows := (windows f)(Metric.Series m0 \<mapsto>
          \<lparr>Window.Series = Window.Series (windowFor f m0), Window.Start = Timestamp m', Window.End = Timestamp m',
           Window.Value = 0 + Metric.Value m', Window.Passthrough = Window.Passthrough (windowFor f m0)\<rparr>)\<rparr>,
       snd (WindowFilter_step f m0) @
       [\<lparr>Window.Series = Window.Series (windowFor f m0), Window.Start = Timestamp m0,
         Window.End = Timestamp (last (m0 # ms)) + WindowWidth (WindowConfig f) * Second,
         Window.Value = foldl (+) 0 (map Metric.Value (m0 # ms)),
         Window.Passthrough = Window.Passthrough (windowFor f m0)\<rparr>])"
proof -
  let ?s = "Metric.Series m0"
  let ?acc = "windowFor f m0"
  let ?w0 = "\<lparr>Window.Series = Window.Series ?acc, Window.Start = Timestamp m0, Window.End = Timestamp m0,
             Window.Value = 0 + Metric.Value m0, Window.Passthrough = Window.Passthrough ?acc\<rparr>"
  let ?f0 = "f\<lparr>windows := (windows f)(?s \<mapsto> ?w0)\<rparr>"
  have step0: "fst (WindowFilter_step f m0) = ?f0"
  proof (cases "windows f ?s")
    case None
    then show ?thesis
      using W by (simp add: WindowFilter_step_create windowFor_def)
  next
    case (Some window)
    with start have "WindowWidth (WindowConfig f) \<le> windowAge_seconds m0 window"
      by (simp add: windowFor_def)
    with Some W show ?thesis
      by (simp add: WindowFilter_step_rollover windowFor_def)
  qed
  have age: "windowAge_seconds m ?w0 = quo (time_Sub (Timestamp m) (Timestamp m0)) Second" for m
    by (simp add: windowAge_seconds_def)
  let ?w1 = "?w0\<lparr>Window.Value := foldl (+) (Window.Value ?w0) (map Metric.Value ms),
                    Window.End := last (Window.End ?w0 # map Timestamp ms)\<rparr>"
  let ?f1 = "?f0\<lparr>windows := (windows ?f0)(?s \<mapsto> ?w1)\<rparr>"
  have run0: "WindowFilter_Connect ?f0 ms = (?f1, [])"
    using run by (intro WindowFilter_Connect_absorb) (simp_all add: age)
  have app: "WindowFilter_Connect g (xs @ [x]) =
      (fst (WindowFilter_step (fst (WindowFilter_Connect g xs)) x),
       snd (WindowFilter_Connect g xs) @ snd (WindowFilter_step (fst (WindowFilter_Connect g xs)) x))"
    for g :: "('v, 'p) WindowFilter" and xs x
    by (induction xs arbitrary: g) (simp_all add: split_beta Let_def)
  have last_eq: "last (Timestamp m0 # map Timestamp ms) = Timestamp (last (m0 # ms))"
    by (simp add: last_map)
  have trig: "WindowFilter_step ?f1 m' =
    (?f1\<lparr>windows := (windows ?f1)(Metric.Series m' \<mapsto>
         \<lparr>Window.Series = Window.Series ?w1, Window.Start = Timestamp m', Window.End = Timestamp m',
          Window.Value = 0 + Metric.Value m', Window.Passthrough = Window.Passthrough ?w1\<rparr>)\<rparr>,
     [?w1\<lparr>Window.End := Window.End ?w1 + WindowWidth (WindowConfig ?f1) * Second\<rparr>])"
    using W trigger by (intro WindowFilter_step_rollover) (simp_all add: windowAge_seconds_def)
  have first: "snd (WindowFilter_Connect f (m0 # ms)) = snd (WindowFilter_step f m0)"
    using step0 run0 by (simp add: split_beta Let_def)
  have "WindowFilter_Connect f (m0 # ms @ [m']) =
      (fst (WindowFilter_step ?f1 m'), snd (WindowFilter_step f m0) @ snd (WindowFilter_step ?f1 m'))"
    using step0 run0 app [of ?f0 ms m'] by (simp add: split_beta Let_def)
  with first trig trigger(1) last_eq show ?thesis
    by simp
qed

subsection \<open>Series do not interfere\<close>

lemma windowFor_keyed:
  assumes "\<forall>k w. windows f k = Some w \<longrightarrow> Window.Series w = k"
  shows "Window.Series (windowFor f m) = Metric.Series m"
proof (cases "windows f (Metric.Series m)")
  case None
  then show ?thesis by (simp add: windowFor_def)
next
  case (Some w)
  with assms have "Window.Series w = Metric.Series m" by blast
  with Some show ?thesis by (simp add: windowFor_def)
qed

lemma WindowFilter_step_shape:
  "\<exists>w. windows (fst (WindowFilter_step f m)) (Metric.Series m) = Some w \<and>
       Window.Series w = Window.Series (windowFor f m)"
  "\<forall>x\<in>set (snd (WindowFilter_step f m)). Window.Series x = Window.Series (windowFor f m)"
  by (simp_all add: WindowFilter_step_def flushWindow_def Let_def)

lemma WindowFilter_step_other:
  assumes "Metric.Series m \<noteq> s"
  shows "windows (fst (WindowFilter_step f m)) s = windows f s"
    and "WindowConfig (fst (WindowFilter_step f m)) = WindowConfig f"
  using assms by (simp_all add: WindowFilter_step_def Let_def split_beta)

lemma WindowFilter_step_keyed:
  assumes "\<forall>k w. windows f k = Some w \<longrightarrow> Window.Series w = k"
  shows "\<forall>k w. windows (fst (WindowFilter_step f m)) k = Some w \<longrightarrow> Window.Series w = k"
proof (intro allI impI)
  fix k w
  assume kw: "windows (fst (WindowFilter_step f m)) k = Some w"
  show "Window.Series w = k"
  proof (cases "k = Metric.Series m")
    case True
    with kw WindowFilter_step_shape(1) [of f m]
    have "Window.Series w = Window.Series (windowFor f m)" by auto
    with windowFor_keyed [OF assms, of m] True show ?thesis by simp
  next
    case False
    then have "Metric.Series m \<noteq> k" by simp
    from WindowFilter_step_other(1) [OF this, of f] kw have "windows f k = Some w" by simp
    with assms show ?thesis by blast
  qed
qed

lemma WindowFilter_step_agree:
  assumes "WindowConfig g = WindowConfig f"
    and "windows g (Metric.Series m) = windows f (Metric.Series m)"
  shows "snd (WindowFilter_step g m) = snd (WindowFilter_step f m)"
    and "windows (fst (WindowFilter_step g m)) (Metric.Series m) =
         windows (fst (WindowFilter_step f m)) (Metric.Series m)"
    and "WindowConfig (fst (WindowFilter_step g m)) = WindowConfig (fst (WindowFilter_step f m))"
  using assms
  by (simp_all add: WindowFilter_step_def windowFor_def flushWindow_def Let_def split_beta)

lemma WindowFilter_Connect_series:
  assumes "\<forall>k w. windows f k = Some w \<longrightarrow> Window.Series w = k"
    and "WindowConfig g = WindowConfig f"
    and "windows g s = windows f s"
  shows "filter (\<lambda>w. Window.Series w = s) (snd (WindowFilter_Connect f ms)) =
           snd (WindowFilter_Connect g (filter (\<lambda>m. Metric.Series m = s) ms)) \<and>
         windows (fst (WindowFilter_Connect f ms)) s =
           windows (fst (WindowFilter_Connect g (filter (\<lambda>m. Metric.Series m = s) ms))) s"
  using assms
proof (induction ms arbitrary: f g)
  case Nil
  then show ?case by simp
next
  case (Cons m ms)
  let ?f = "fst (WindowFilter_step f m)"
  have keyed: "\<forall>k w. windows ?f k = Some w \<longrightarrow> Window.Series w = k"
    by (rule WindowFilter_step_keyed [OF Cons.prems(1)])
  have out_series: "\<forall>x\<in>set (snd (WindowFilter_step f m)). Window.Series x = Metric.Series m"
    using WindowFilter_step_shape(2) [of f m] windowFor_keyed [OF Cons.prems(1), of m] by simp
  show ?case
  proof (cases "Metric.Series m = s")
    case True
    let ?g = "fst (WindowFilter_step g m)"
    have agree: "snd (WindowFilter_step g m) = snd (WindowFilter_step f m)"
      "windows ?g s = windows ?f s" "WindowConfig ?g = WindowConfig ?f"
      using WindowFilter_step_agree [of g f m] Cons.prems(2,3) True by simp_all
    have keep: "filter (\<lambda>w. Window.Series w = s) (snd (WindowFilter_step f m)) =
        snd (WindowFilter_step f m)"
      using out_series True by (simp add: filter_id_conv)
    from Cons.IH [OF keyed agree(3) agree(2)] True agree(1) keep show ?thesis
      by (simp add: split_beta Let_def)
  next
    case False
    have drop: "filter (\<lambda>w. Window.Series w = s) (snd (WindowFilter_step f m)) = []"
      using out_series False by (simp add: filter_empty_conv)
    have "WindowConfig g = WindowConfig ?f" "windows g s = windows ?f s"
      using WindowFilter_step_other [OF False, of f] Cons.prems(2,3) by simp_all
    from Cons.IH [OF keyed this] False drop show ?thesis
      by (simp add: split_beta Let_def)
  qed
qed

lemma filter_eq_all: "filter P xs = ys \<Longrightarrow> \<forall>y\<in>set ys. P y"
  by auto

lemma WindowFilter_absorb_one_series:
  fixes f :: "('v::{plus,zero}, 'p) WindowFilter"
  assumes W: "0 < WindowWidth (WindowConfig f)"
    and start: "windows f (Metric.Series m0) = None \<or>
                WindowWidth (WindowConfig f) \<le> windowAge_seconds m0 (windowFor f m0)"
    and run: "\<forall>m\<in>set ms. Metric.Series m = Metric.Series m0 \<and>
                quo (time_Sub (Timestamp m) (Timestamp m0)) Second < WindowWidth (WindowConfig f)"
  shows "snd (WindowFilter_Connect f (m0 # ms)) = snd (WindowFilter_step f m0)"
proof -
  let ?s = "Metric.Series m0"
  let ?acc = "windowFor f m0"
  let ?w0 = "\<lparr>Window.Series = Window.Series ?acc, Window.Start = Timestamp m0,
             Window.End = Timestamp m0, Window.Value = 0 + Metric.Value m0,
             Window.Passthrough = Window.Passthrough ?acc\<rparr>"
  let ?f0 = "f\<lparr>windows := (windows f)(?s \<mapsto> ?w0)\<rparr>"
  have step0: "fst (WindowFilter_step f m0) = ?f0"
  proof (cases "windows f ?s")
    case None
    then show ?thesis
      using W by (simp add: WindowFilter_step_create windowFor_def)
  next
    case (Some window)
    with start have "WindowWidth (WindowConfig f) \<le> windowAge_seconds m0 window"
      by (simp add: windowFor_def)
    with Some W show ?thesis
      by (simp add: WindowFilter_step_rollover windowFor_def)
  qed
  have "snd (WindowFilter_Connect ?f0 ms) = []"
    using run WindowFilter_Connect_absorb [of ?f0 ?s ?w0 ms]
    by (simp add: windowAge_seconds_def)
  with step0 show ?thesis
    by (simp add: split_beta Let_def)
qed

text \<open>
  C2. For every series \<open>s\<close>, in a stream in which the metrics of other series may be
  interleaved: let \<open>m0\<close> be the metric of \<open>s\<close> that starts an accumulator (there was
  none, or \<open>m0\<close> itself rolled the previous one over). While the metrics \<open>ms\<close> of \<open>s\<close>
  that follow stay, in whole seconds, below the window width from \<open>m0\<close>, no window of
  \<open>s\<close> is sent (beyond what the arrival of \<open>m0\<close> itself sent). The first metric \<open>m'\<close>
  of \<open>s\<close> whose age reaches the width sends exactly one window of \<open>s\<close>: it starts at
  \<open>m0\<close>, its value is the sum, in arrival order from zero, of the values of \<open>m0 # ms\<close>
  (not of \<open>m'\<close>), its end is the timestamp of the last metric absorbed plus the window
  width. The accumulator afterwards starts and ends at the timestamp of \<open>m'\<close>, holds the
  value of \<open>m'\<close> alone, and keeps the series and the passthrough. (Every accumulator is
  stored under its own series, as in every state that \<^verbatim>\<open>Connect\<close> reaches from the empty
  map of \<^verbatim>\<open>Init\<close>; the window width is positive, as \<^verbatim>\<open>Init\<close> requires.)
\<close>

theorem WindowFilter_rollover:
  fixes f :: "('v::{plus,zero}, 'p) WindowFilter"
  assumes keyed: "\<forall>k w. windows f k = Some w \<longrightarrow> Window.Series w = k"
    and W: "0 < WindowWidth (WindowConfig f)"
    and start: "windows f s = None \<or>
                WindowWidth (WindowConfig f) \<le> windowAge_seconds m0 (windowFor f m0)"
    and run: "\<forall>m\<in>set ms.
                quo (time_Sub (Timestamp m) (Timestamp m0)) Second < WindowWidth (WindowConfig f)"
    and trigger:
      "WindowWidth (WindowConfig f) \<le> quo (time_Sub (Timestamp m') (Timestamp m0)) Second"
  shows "(\<forall>metrics. filter (\<lambda>m. Metric.Series m = s) metrics = m0 # ms \<longrightarrow>
            filter (\<lambda>w. Window.Series w = s) (snd (WindowFilter_Connect f metrics)) =
              snd (WindowFilter_step f m0)) \<and>
         (\<forall>metrics. filter (\<lambda>m. Metric.Series m = s) metrics = m0 # ms @ [m'] \<longrightarrow>
            filter (\<lambda>w. Window.Series w = s) (snd (WindowFilter_Connect f metrics)) =
              snd (WindowFilter_step f m0) @
              [\<lparr>Window.Series = s, Window.Start = Timestamp m0,
                Window.End = Timestamp (last (m0 # ms)) + WindowWidth (WindowConfig f) * Second,
                Window.Value = foldl (+) 0 (map Metric.Value (m0 # ms)),
                Window.Passthrough = Window.Passthrough (windowFor f m0)\<rparr>] \<and>
            windows (fst (WindowFilter_Connect f metrics)) s =
              Some \<lparr>Window.Series = s, Window.Start = Timestamp m', Window.End = Timestamp m',
                    Window.Value = 0 + Metric.Value m',
                    Window.Passthrough = Window.Passthrough (windowFor f m0)\<rparr>)"
proof -
  have part: "filter (\<lambda>w. Window.Series w = s) (snd (WindowFilter_Connect f metrics)) =
        snd (WindowFilter_Connect f xs) \<and>
      windows (fst (WindowFilter_Connect f metrics)) s = windows (fst (WindowFilter_Connect f xs)) s"
    if "filter (\<lambda>m. Metric.Series m = s) metrics = xs" for metrics xs
    using WindowFilter_Connect_series [OF keyed refl refl, of s metrics] that by simp
  have first: "filter (\<lambda>w. Window.Series w = s) (snd (WindowFilter_Connect f metrics)) =
      snd (WindowFilter_step f m0)"
    if proj: "filter (\<lambda>m. Metric.Series m = s) metrics = m0 # ms" for metrics
  proof -
    from filter_eq_all [OF proj] have m0: "Metric.Series m0 = s"
      and ms: "\<forall>m\<in>set ms. Metric.Series m = s"
      by simp_all
    have "snd (WindowFilter_Connect f (m0 # ms)) = snd (WindowFilter_step f m0)"
      using WindowFilter_absorb_one_series [of f m0 ms] W start run m0 ms by simp
    with part [OF proj] show ?thesis by simp
  qed
  have second: "filter (\<lambda>w. Window.Series w = s) (snd (WindowFilter_Connect f metrics)) =
              snd (WindowFilter_step f m0) @
              [\<lparr>Window.Series = s, Window.Start = Timestamp m0,
                Window.End = Timestamp (last (m0 # ms)) + WindowWidth (WindowConfig f) * Second,
                Window.Value = foldl (+) 0 (map Metric.Value (m0 # ms)),
                Window.Passthrough = Window.Passthrough (windowFor f m0)\<rparr>] \<and>
            windows (fst (WindowFilter_Connect f metrics)) s =
              Some \<lparr>Window.Series = s, Window.Start = Timestamp m', Window.End = Timestamp m',
                    Window.Value = 0 + Metric.Value m',
                    Window.Passthrough = Window.Passthrough (windowFor f m0)\<rparr>"
    if proj: "filter (\<lambda>m. Metric.Series m = s) metrics = m0 # ms @ [m']" for metrics
  proof -
    from filter_eq_all [OF proj] have m0: "Metric.Series m0 = s"
      and ms: "\<forall>m\<in>set ms. Metric.Series m = s" and m': "Metric.Series m' = s"
      by simp_all
    have series: "Window.Series (windowFor f m0) = s"
      using windowFor_keyed [OF keyed, of m0] m0 by simp
    have "WindowFilter_Connect f (m0 # ms @ [m']) =
      (f\<lparr>windows := (windows f)(Metric.Series m0 \<mapsto>
          \<lparr>Window.Series = Window.Series (windowFor f m0), Window.Start = Timestamp m',
           Window.End = Timestamp m', Window.Value = 0 + Metric.Value m',
           Window.Passthrough = Window.Passthrough (windowFor f m0)\<rparr>)\<rparr>,
       snd (WindowFilter_step f m0) @
       [\<lparr>Window.Series = Window.Series (windowFor f m0), Window.Start = Timestamp m0,
         Window.End = Timestamp (last (m0 # ms)) + WindowWidth (WindowConfig f) * Second,
         Window.Value = foldl (+) 0 (map Metric.Value (m0 # ms)),
         Window.Passthrough = Window.Passthrough (windowFor f m0)\<rparr>])"
      using WindowFilter_rollover_one_series [of f m0 ms m'] W start run trigger m0 ms m'
      by simp
    with part [OF proj] series m0 show ?thesis
      by simp
  qed
  from first second show ?thesis
    by blast
qed

theorem WindowFilter_rollover_witness:
  "filter (\<lambda>w. Window.Series w = ''A'')
     (snd (WindowFilter_Connect exampleWindowFilter
        [exampleMetric ''A'' 0 1,
         exampleMetric ''B'' 5000000000 7,
         exampleMetric ''A'' 10000000000 1,
         exampleMetric ''A'' 20000000000 1,
         exampleMetric ''B'' 40000000000 2,
         exampleMetric ''A'' 35000000000 1])) =
   [\<lparr>Window.Series = ''A'', Window.Start = 0, Window.End = 50000000000,
     Window.Value = 3, Window.Passthrough = ()\<rparr>] \<and>
   windows (fst (WindowFilter_Connect exampleWindowFilter
        [exampleMetric ''A'' 0 1,
         exampleMetric ''B'' 5000000000 7,
         exampleMetric ''A'' 10000000000 1,
         exampleMetric ''A'' 20000000000 1,
         exampleMetric ''B'' 40000000000 2,
         exampleMetric ''A'' 35000000000 1])) ''A'' =
   Some \<lparr>Window.Series = ''A'', Window.Start = 35000000000, Window.End = 35000000000,
         Window.Value = 1, Window.Passthrough = ()\<rparr>"
proof -
  let ?metrics = "[exampleMetric ''A'' 0 1,
         exampleMetric ''B'' 5000000000 7,
         exampleMetric ''A'' 10000000000 1,
         exampleMetric ''A'' 20000000000 1,
         exampleMetric ''B'' 40000000000 2,
         exampleMetric ''A'' 35000000000 1]"
  have keyed: "\<forall>k w. windows exampleWindowFilter k = Some w \<longrightarrow> Window.Series w = k"
    by (simp add: exampleWindowFilter_def)
  have W: "0 < WindowWidth (WindowConfig exampleWindowFilter)"
    by (simp add: exampleWindowFilter_def)
  have start: "windows exampleWindowFilter ''A'' = None \<or>
      WindowWidth (WindowConfig exampleWindowFilter) \<le>
        windowAge_seconds (exampleMetric ''A'' 0 1)
          (windowFor exampleWindowFilter (exampleMetric ''A'' 0 1))"
    by (simp add: exampleWindowFilter_def)
  have run: "\<forall>m\<in>set [exampleMetric ''A'' 10000000000 1, exampleMetric ''A'' 20000000000 1].
      quo (time_Sub (Timestamp m) (Timestamp (exampleMetric ''A'' 0 1))) Second
        < WindowWidth (WindowConfig exampleWindowFilter)"
    by (simp add: exampleWindowFilter_def exampleMetric_def quo_def time_Sub_def
        minDuration_def maxDuration_def Second_def)
  have trigger: "WindowWidth (WindowConfig exampleWindowFilter) \<le>
      quo (time_Sub (Timestamp (exampleMetric ''A'' 35000000000 1))
        (Timestamp (exampleMetric ''A'' 0 1))) Second"
    by (simp add: exampleWindowFilter_def exampleMetric_def quo_def time_Sub_def
        minDuration_def maxDuration_def Second_def)
  have proj: "filter (\<lambda>m. Metric.Series m = ''A'') ?metrics =
      exampleMetric ''A'' 0 1 #
      [exampleMetric ''A'' 10000000000 1, exampleMetric ''A'' 20000000000 1] @
      [exampleMetric ''A'' 35000000000 1]"
    by (simp add: exampleMetric_def)
  have first: "snd (WindowFilter_step exampleWindowFilter (exampleMetric ''A'' 0 1)) = []"
    using W by (simp add: WindowFilter_step_create exampleWindowFilter_def)
  from WindowFilter_rollover [OF keyed W start run trigger]
  have "filter (\<lambda>m. Metric.Series m = ''A'') ?metrics =
      exampleMetric ''A'' 0 1 #
      [exampleMetric ''A'' 10000000000 1, exampleMetric ''A'' 20000000000 1] @
      [exampleMetric ''A'' 35000000000 1] \<longrightarrow>
    filter (\<lambda>w. Window.Series w = ''A'') (snd (WindowFilter_Connect exampleWindowFilter ?metrics)) =
      snd (WindowFilter_step exampleWindowFilter (exampleMetric ''A'' 0 1)) @
      [\<lparr>Window.Series = ''A'', Window.Start = Timestamp (exampleMetric ''A'' 0 1),
        Window.End = Timestamp (last (exampleMetric ''A'' 0 1 #
            [exampleMetric ''A'' 10000000000 1, exampleMetric ''A'' 20000000000 1])) +
          WindowWidth (WindowConfig exampleWindowFilter) * Second,
        Window.Value = foldl (+) 0 (map Metric.Value (exampleMetric ''A'' 0 1 #
            [exampleMetric ''A'' 10000000000 1, exampleMetric ''A'' 20000000000 1])),
        Window.Passthrough =
          Window.Passthrough (windowFor exampleWindowFilter (exampleMetric ''A'' 0 1))\<rparr>] \<and>
    windows (fst (WindowFilter_Connect exampleWindowFilter ?metrics)) ''A'' =
      Some \<lparr>Window.Series = ''A'', Window.Start = Timestamp (exampleMetric ''A'' 35000000000 1),
            Window.End = Timestamp (exampleMetric ''A'' 35000000000 1),
            Window.Value = 0 + Metric.Value (exampleMetric ''A'' 35000000000 1),
            Window.Passthrough =
              Window.Passthrough (windowFor exampleWindowFilter (exampleMetric ''A'' 0 1))\<rparr>"
    by blast
  with proj first show ?thesis
    by (simp add: exampleMetric_def exampleWindowFilter_def windowFor_def Second_def)
qed

lemma seconds_eq: "- 9223372036 \<le> w \<Longrightarrow> w \<le> 9223372036 \<Longrightarrow> seconds w = w * Second"
  by (simp add: seconds_def Second_def wrap64_id)

section \<open>The expiry test\<close>

text \<open>
  C3. \<^verbatim>\<open>SpanExpired\<close> holds of a span at a time \<open>t\<close> exactly when \<open>t\<close> is after the span's
  end plus the span width, or the span's end plus the span width is at or after the last
  date of the configuration; and it is monotonic in the time: if it holds at \<open>t\<close>, it
  holds at every later \<open>t'\<close>. (The span width is the duration the code computes from the
  configured number of seconds.)
\<close>

theorem SpanExpired_mono:
  assumes "t < t'"
  shows "(SpanExpired f sp t \<longleftrightarrow>
            span.End sp + seconds (SpanWidth (GatherConfig f)) < t \<or>
            lastDate f \<le> span.End sp + seconds (SpanWidth (GatherConfig f))) \<and>
         (SpanExpired f sp t \<longrightarrow> SpanExpired f sp t')"
  using assms
  by (auto simp add: SpanExpired_def Let_def time_Add_def time_After_def time_Equal_def)

theorem SpanExpired_mono_witness:
  "(11000000000::int) < 12000000000 \<and>
   SpanExpired \<lparr>GatherConfig = \<lparr>Disabled = False, SpanWidth = 10, Statistic = ''Sum'',
                   ValueField = ''normed'', LastDate = ''today''\<rparr>,
                 aggregator = stats_Sum,
                 spanCache = \<lparr>spans = Map.empty, nows = Map.empty\<rparr>,
                 lastDate = 1000000000000\<rparr>
     \<lparr>span.Series = ''A'', Values = [3::real], span.Start = 0, span.End = 0, Duration = 0,
      Score = 0, span.Passthrough = ()\<rparr> 11000000000 \<and>
   SpanExpired \<lparr>GatherConfig = \<lparr>Disabled = False, SpanWidth = 10, Statistic = ''Sum'',
                   ValueField = ''normed'', LastDate = ''today''\<rparr>,
                 aggregator = stats_Sum,
                 spanCache = \<lparr>spans = Map.empty, nows = Map.empty\<rparr>,
                 lastDate = 1000000000000\<rparr>
     \<lparr>span.Series = ''A'', Values = [3::real], span.Start = 0, span.End = 0, Duration = 0,
      Score = 0, span.Passthrough = ()\<rparr> 12000000000"
  using SpanExpired_mono [of 11000000000 12000000000
     "\<lparr>GatherConfig = \<lparr>Disabled = False, SpanWidth = 10, Statistic = ''Sum'',
                   ValueField = ''normed'', LastDate = ''today''\<rparr>,
                 aggregator = stats_Sum,
                 spanCache = \<lparr>spans = Map.empty, nows = Map.empty\<rparr>,
                 lastDate = 1000000000000\<rparr>"
     "\<lparr>span.Series = ''A'', Values = [3::real], span.Start = 0, span.End = 0, Duration = 0,
      Score = 0, span.Passthrough = ()\<rparr>"]
  by (simp add: seconds_eq Second_def)

section \<open>Selection of the aggregate statistic\<close>

text \<open>
  The names of the table are capitalised and the lookup is exact: the configured name
  \<^verbatim>\<open>mean\<close> selects the sum, not the mean.
\<close>

theorem getAggregator_lowercase_counterexample:
  "getAggregator
     \<lparr>GatherConfig = \<lparr>Disabled = False, SpanWidth = 10, Statistic = ''mean'',
                      ValueField = ''normed'', LastDate = ''today''\<rparr>,
      aggregator = stats_Sum,
      spanCache = \<lparr>spans = Map.empty :: string \<rightharpoonup> (real, unit) span, nows = Map.empty\<rparr>,
      lastDate = 0\<rparr> = stats_Sum \<and>
   getAggregator
     \<lparr>GatherConfig = \<lparr>Disabled = False, SpanWidth = 10, Statistic = ''mean'',
                      ValueField = ''normed'', LastDate = ''today''\<rparr>,
      aggregator = stats_Sum,
      spanCache = \<lparr>spans = Map.empty :: string \<rightharpoonup> (real, unit) span, nows = Map.empty\<rparr>,
      lastDate = 0\<rparr> \<noteq> stats_Mean"
  by (simp add: getAggregator_def aggFunctions_def defaultAggregator_def)

text \<open>
  C8, as amended. For every configured statistic name: one of the five names \<^verbatim>\<open>Sum\<close>,
  \<^verbatim>\<open>Mean\<close>, \<^verbatim>\<open>Median\<close>, \<^verbatim>\<open>Midhinge\<close>, \<^verbatim>\<open>Trimean\<close>, spelled exactly so, selects the
  statistic function of that name; the empty name and every other name (the lower-case
  spellings among them) select the sum function, without an error.
\<close>

theorem getAggregator_table:
  "getAggregator f =
     (if Statistic (GatherConfig f) = ''Sum'' then stats_Sum
      else if Statistic (GatherConfig f) = ''Mean'' then stats_Mean
      else if Statistic (GatherConfig f) = ''Median'' then stats_Median
      else if Statistic (GatherConfig f) = ''Midhinge'' then stats_Midhinge
      else if Statistic (GatherConfig f) = ''Trimean'' then stats_Trimean
      else stats_Sum)"
  by (simp add: getAggregator_def aggFunctions_def defaultAggregator_def)

section \<open>Init of a disabled gather filter\<close>

text \<open>
  C9. With the disabled flag set, \<^verbatim>\<open>Init\<close> returns no error and has only stored the
  configuration: whatever the span width and the last date are, the width is not
  checked and the date is not parsed.
\<close>

theorem gatherFilter_Init_disabled:
  assumes "Disabled config"
  shows "gatherFilter_Init time_Now time_Parse f config = (None, f\<lparr>GatherConfig := config\<rparr>)"
  using assms by (simp add: gatherFilter_Init_def Let_def)

theorem gatherFilter_Init_disabled_witness:
  "Disabled \<lparr>Disabled = True, SpanWidth = - 5, Statistic = ''Sum'', ValueField = ''normed'',
             LastDate = ''not a date''\<rparr> \<and>
   gatherFilter_Init 0 (\<lambda>s. Inl ''cannot parse'')
     \<lparr>GatherConfig = ConfigStruct, aggregator = stats_Sum,
      spanCache = \<lparr>spans = Map.empty :: string \<rightharpoonup> (real, unit) span, nows = Map.empty\<rparr>,
      lastDate = 0\<rparr>
     \<lparr>Disabled = True, SpanWidth = - 5, Statistic = ''Sum'', ValueField = ''normed'',
      LastDate = ''not a date''\<rparr> =
   (None,
    \<lparr>GatherConfig = \<lparr>Disabled = True, SpanWidth = - 5, Statistic = ''Sum'',
                       ValueField = ''normed'', LastDate = ''not a date''\<rparr>,
      aggregator = stats_Sum,
      spanCache = \<lparr>spans = Map.empty, nows = Map.empty\<rparr>,
      lastDate = 0\<rparr>)"
  using gatherFilter_Init_disabled
    [of "\<lparr>Disabled = True, SpanWidth = - 5, Statistic = ''Sum'', ValueField = ''normed'',
          LastDate = ''not a date''\<rparr>" 0 "\<lambda>s. Inl ''cannot parse''"
        "\<lparr>GatherConfig = ConfigStruct, aggregator = stats_Sum,
          spanCache = \<lparr>spans = Map.empty :: string \<rightharpoonup> (real, unit) span, nows = Map.empty\<rparr>,
          lastDate = 0\<rparr>"]
  by simp

section \<open>Flushing a span whose statistic fails\<close>

lemma flushSpan_fails:
  assumes "stats (aggregator f) (Values sp) = Inl err"
  shows "flushSpan stats f sp = (sp\<lparr>Duration := time_Sub (span.End sp) (span.Start sp)\<rparr>, [])"
  using assms by (simp add: flushSpan_def CalcScore_def Let_def)

lemma flushSpan_succeeds:
  assumes "stats (aggregator f) (Values sp) = Inr score"
  shows "flushSpan stats f sp =
    (sp\<lparr>Duration := time_Sub (span.End sp) (span.Start sp), Score := score\<rparr>,
     [sp\<lparr>Duration := time_Sub (span.End sp) (span.Start sp), Score := score\<rparr>])"
  using assms by (simp add: flushSpan_def CalcScore_def Let_def)

lemma gatherFilter_step_expired_statistic_fails:
  assumes "spans (spanCache f) (Window.Series (Window r)) = Some sp"
    and "span.Series sp = Window.Series (Window r)"
    and "\<not> Anomalous r"
    and "getRulingValue f r = Some (Inr v)"
    and "SpanExpired f sp (Window.End (Window r))"
    and "stats (aggregator f) (Values sp) = Inl err"
  shows "gatherFilter_step stats f r =
           Some (f\<lparr>spanCache := (spanCache f)
                    \<lparr>spans := (spans (spanCache f))(Window.Series (Window r) := None),
                     nows := (nows (spanCache f))(Window.Series (Window r) := None)\<rparr>\<rparr>, [])"
  using assms
  by (simp add: gatherFilter_step_def getRulingValue_def SpanExpired_def Let_def
      FlushSpan_def flushSpan_fails)

text \<open>
  C6. When the aggregate statistic fails on the magnitude sequence of the span being
  flushed, \<^verbatim>\<open>flushSpan\<close> and \<^verbatim>\<open>FlushSpan\<close> send nothing, and after \<^verbatim>\<open>FlushSpan\<close> the
  cache has no span and no last-seen time for the span's series; for the span the cache
  holds under its own series nothing else in the filter changes. Processing continues:
  the iteration of \<^verbatim>\<open>Connect\<close> that flushes an expired span on a ruling that is not
  anomalous returns with the entries removed and nothing sent, and the loop goes on with
  the next ruling.
\<close>

theorem FlushSpan_statistic_fails:
  assumes "stats (aggregator f) (Values sp) = Inl err"
  shows "snd (flushSpan stats f sp) = [] \<and>
         snd (FlushSpan stats f key sp) = [] \<and>
         spans (spanCache (fst (FlushSpan stats f key sp))) (span.Series sp) = None \<and>
         nows (spanCache (fst (FlushSpan stats f key sp))) (span.Series sp) = None \<and>
         FlushSpan stats f (span.Series sp) sp =
           (f\<lparr>spanCache := (spanCache f)
                \<lparr>spans := (spans (spanCache f))(span.Series sp := None),
                 nows := (nows (spanCache f))(span.Series sp := None)\<rparr>\<rparr>, []) \<and>
         (\<forall>r v. spans (spanCache f) (Window.Series (Window r)) = Some sp \<and>
                span.Series sp = Window.Series (Window r) \<and> \<not> Anomalous r \<and>
                getRulingValue f r = Some (Inr v) \<and>
                SpanExpired f sp (Window.End (Window r)) \<longrightarrow>
            gatherFilter_step stats f r =
              Some (f\<lparr>spanCache := (spanCache f)
                       \<lparr>spans := (spans (spanCache f))(Window.Series (Window r) := None),
                        nows := (nows (spanCache f))(Window.Series (Window r) := None)\<rparr>\<rparr>,
                    []))"
proof -
  have flush: "snd (flushSpan stats f sp) = [] \<and>
         snd (FlushSpan stats f key sp) = [] \<and>
         spans (spanCache (fst (FlushSpan stats f key sp))) (span.Series sp) = None \<and>
         nows (spanCache (fst (FlushSpan stats f key sp))) (span.Series sp) = None \<and>
         FlushSpan stats f (span.Series sp) sp =
           (f\<lparr>spanCache := (spanCache f)
                \<lparr>spans := (spans (spanCache f))(span.Series sp := None),
                 nows := (nows (spanCache f))(span.Series sp := None)\<rparr>\<rparr>, [])"
    using assms by (simp add: FlushSpan_def flushSpan_fails Let_def)
  have "gatherFilter_step stats f r =
      Some (f\<lparr>spanCache := (spanCache f)
               \<lparr>spans := (spans (spanCache f))(Window.Series (Window r) := None),
                nows := (nows (spanCache f))(Window.Series (Window r) := None)\<rparr>\<rparr>, [])"
    if "spans (spanCache f) (Window.Series (Window r)) = Some sp"
      and "span.Series sp = Window.Series (Window r)" and "\<not> Anomalous r"
      and "getRulingValue f r = Some (Inr v)"
      and "SpanExpired f sp (Window.End (Window r))" for r v
    using that assms by (rule gatherFilter_step_expired_statistic_fails)
  with flush show ?thesis
    by blast
qed

theorem FlushSpan_statistic_fails_witness:
  "exampleStats (aggregator exampleFilter) [] = Inl ''Input must not be empty.'' \<and>
   FlushSpan exampleStats
     (exampleFilter\<lparr>spanCache :=
        \<lparr>spans = [''A'' \<mapsto> \<lparr>span.Series = ''A'', Values = [], span.Start = 0,
                              span.End = 30000000000, Duration = 0, Score = 0,
                              span.Passthrough = ()\<rparr>],
         nows = [''A'' \<mapsto> 30000000000]\<rparr>\<rparr>)
     ''A''
     \<lparr>span.Series = ''A'', Values = [], span.Start = 0, span.End = 30000000000,
      Duration = 0, Score = 0, span.Passthrough = ()\<rparr> =
   (exampleFilter, []) \<and>
   gatherFilter_step exampleStats
     (exampleFilter\<lparr>spanCache :=
        \<lparr>spans = [''A'' \<mapsto> \<lparr>span.Series = ''A'', Values = [], span.Start = 0,
                              span.End = 30000000000, Duration = 0, Score = 0,
                              span.Passthrough = ()\<rparr>],
         nows = [''A'' \<mapsto> 30000000000]\<rparr>\<rparr>)
     (exampleRuling ''A'' 60000000000 90000000000 False 1) =
   Some (exampleFilter, [])"
proof -
  let ?sp = "\<lparr>span.Series = ''A'', Values = [], span.Start = 0, span.End = 30000000000,
      Duration = 0, Score = 0, span.Passthrough = ()\<rparr> :: (real, unit) span"
  let ?f = "exampleFilter\<lparr>spanCache :=
        \<lparr>spans = [''A'' \<mapsto> ?sp], nows = [''A'' \<mapsto> 30000000000]\<rparr>\<rparr>"
  let ?r = "exampleRuling ''A'' 60000000000 90000000000 False 1"
  have fails: "exampleStats (aggregator ?f) (Values ?sp) = Inl ''Input must not be empty.''"
    by (simp add: exampleStats_def)
  note inst = FlushSpan_statistic_fails
    [where stats = exampleStats and f = ?f and sp = ?sp and key = "''A''", OF fails]
  have removed: "?f\<lparr>spanCache := (spanCache ?f)
      \<lparr>spans := (spans (spanCache ?f))(''A'' := None),
       nows := (nows (spanCache ?f))(''A'' := None)\<rparr>\<rparr> = exampleFilter"
    by (simp add: exampleFilter_def)
  have flush: "FlushSpan exampleStats ?f ''A'' ?sp = (exampleFilter, [])"
    using inst removed by simp
  have ruling: "spans (spanCache ?f) (Window.Series (Window ?r)) = Some ?sp \<and>
      span.Series ?sp = Window.Series (Window ?r) \<and> \<not> Anomalous ?r \<and>
      getRulingValue ?f ?r = Some (Inr 1) \<and> SpanExpired ?f ?sp (Window.End (Window ?r))"
    by (simp add: exampleRuling_def exampleFilter_def getRulingValue_def SpanExpired_def
        seconds_eq Second_def time_Add_def time_After_def)
  from inst ruling have "gatherFilter_step exampleStats ?f ?r =
      Some (?f\<lparr>spanCache := (spanCache ?f)
               \<lparr>spans := (spans (spanCache ?f))(Window.Series (Window ?r) := None),
                nows := (nows (spanCache ?f))(Window.Series (Window ?r) := None)\<rparr>\<rparr>, [])"
    by blast
  moreover have "Window.Series (Window ?r) = ''A''"
    by (simp add: exampleRuling_def)
  ultimately have step: "gatherFilter_step exampleStats ?f ?r = Some (exampleFilter, [])"
    using removed by simp
  have "exampleStats (aggregator exampleFilter) [] = Inl ''Input must not be empty.''"
    by (simp add: exampleStats_def)
  with flush step show ?thesis
    by blast
qed

section \<open>A ruling without the value field\<close>

text \<open>
  C7. For a ruling that does not have the configured value field, the iteration skips
  the ruling: it sends nothing and leaves the spans of the cache as they are, so that no
  span is created, modified or flushed for any series. (The last-seen time of the
  ruling's series has been recorded before the field is read, as for every ruling; for
  the rest the filter is as before.) The loop goes on with the rulings that follow.
\<close>

theorem gatherFilter_step_field_absent:
  assumes "FieldByName r (ValueField (GatherConfig f)) = None"
  shows "gatherFilter_step stats f r =
           Some (f\<lparr>spanCache := (spanCache f)
                    \<lparr>nows := (nows (spanCache f))
                       (Window.Series (Window r) \<mapsto> Window.End (Window r))\<rparr>\<rparr>, []) \<and>
         gatherFilter_Connect stats f (r # rs) =
           gatherFilter_Connect stats
             (f\<lparr>spanCache := (spanCache f)
                    \<lparr>nows := (nows (spanCache f))
                       (Window.Series (Window r) \<mapsto> Window.End (Window r))\<rparr>\<rparr>) rs \<and>
         spans (spanCache (f\<lparr>spanCache := (spanCache f)
                    \<lparr>nows := (nows (spanCache f))
                       (Window.Series (Window r) \<mapsto> Window.End (Window r))\<rparr>\<rparr>)) =
           spans (spanCache f)"
proof -
  have step: "gatherFilter_step stats f r =
           Some (f\<lparr>spanCache := (spanCache f)
                    \<lparr>nows := (nows (spanCache f))
                       (Window.Series (Window r) \<mapsto> Window.End (Window r))\<rparr>\<rparr>, [])"
    using assms by (simp add: gatherFilter_step_def getRulingValue_def Let_def)
  then show ?thesis
    by (simp split: option.split)
qed

theorem gatherFilter_step_field_absent_witness:
  "FieldByName (exampleRuling ''A'' 0 30000000000 True 3\<lparr>FieldByName := Map.empty\<rparr>)
     (ValueField (GatherConfig exampleFilter)) = None \<and>
   gatherFilter_Connect exampleStats exampleFilter
     [exampleRuling ''A'' 0 30000000000 True 3\<lparr>FieldByName := Map.empty\<rparr>,
      exampleRuling ''A'' 30000000000 60000000000 True 4] =
   Some (exampleFilter\<lparr>spanCache :=
           \<lparr>spans = [''A'' \<mapsto> \<lparr>span.Series = ''A'', Values = [4], span.Start = 30000000000,
                                 span.End = 60000000000, Duration = 0, Score = 0,
                                 span.Passthrough = ()\<rparr>],
            nows = [''A'' \<mapsto> 60000000000]\<rparr>\<rparr>, [])"
  using gatherFilter_step_field_absent
    [where r = "exampleRuling ''A'' 0 30000000000 True 3\<lparr>FieldByName := Map.empty\<rparr>"
       and f = exampleFilter and stats = exampleStats
       and rs = "[exampleRuling ''A'' 30000000000 60000000000 True 4]"]
  by (simp add: gatherFilter_step_def getRulingValue_def exampleRuling_def exampleFilter_def
      newSpan_def Let_def)

section \<open>A ruling that is not anomalous, on a span that is not expired\<close>

text \<open>
  C5. For a ruling that is not anomalous, on a series whose span in the cache is not
  expired at the end of the ruling's window, the iteration appends the ruling's
  magnitude to the span's magnitudes and changes no other field of the span (end, start,
  series and passthrough stay), sends nothing and keeps the span in the cache; the
  last-seen time of the series is set to the end of the window.
\<close>

theorem gatherFilter_step_not_anomalous_not_expired:
  assumes "spans (spanCache f) (Window.Series (Window r)) = Some sp"
    and "\<not> Anomalous r"
    and "getRulingValue f r = Some (Inr v)"
    and "\<not> SpanExpired f sp (Window.End (Window r))"
  shows "gatherFilter_step stats f r =
           Some (f\<lparr>spanCache :=
                     (spanCache f)
                     \<lparr>spans := (spans (spanCache f))
                        (Window.Series (Window r) \<mapsto> sp\<lparr>Values := Values sp @ [v]\<rparr>),
                      nows := (nows (spanCache f))
                        (Window.Series (Window r) \<mapsto> Window.End (Window r))\<rparr>\<rparr>, [])"
  using assms
  by (simp add: gatherFilter_step_def getRulingValue_def Let_def SpanExpired_def)

theorem gatherFilter_step_not_anomalous_not_expired_witness:
  "\<not> SpanExpired
       (exampleFilter\<lparr>spanCache :=
          \<lparr>spans = [''A'' \<mapsto> \<lparr>span.Series = ''A'', Values = [3], span.Start = 0,
                                span.End = 30000000000, Duration = 0, Score = 0,
                                span.Passthrough = ()\<rparr>],
           nows = [''A'' \<mapsto> 30000000000]\<rparr>\<rparr>)
       \<lparr>span.Series = ''A'', Values = [3], span.Start = 0, span.End = 30000000000,
        Duration = 0, Score = 0, span.Passthrough = ()\<rparr> 35000000000 \<and>
   gatherFilter_step exampleStats
     (exampleFilter\<lparr>spanCache :=
        \<lparr>spans = [''A'' \<mapsto> \<lparr>span.Series = ''A'', Values = [3], span.Start = 0,
                              span.End = 30000000000, Duration = 0, Score = 0,
                              span.Passthrough = ()\<rparr>],
         nows = [''A'' \<mapsto> 30000000000]\<rparr>\<rparr>)
     (exampleRuling ''A'' 30000000000 35000000000 False 1) =
   Some (exampleFilter\<lparr>spanCache :=
           \<lparr>spans = [''A'' \<mapsto> \<lparr>span.Series = ''A'', Values = [3, 1], span.Start = 0,
                                 span.End = 30000000000, Duration = 0, Score = 0,
                                 span.Passthrough = ()\<rparr>],
            nows = [''A'' \<mapsto> 35000000000]\<rparr>\<rparr>, [])"
  using gatherFilter_step_not_anomalous_not_expired
    [of "exampleFilter\<lparr>spanCache :=
           \<lparr>spans = [''A'' \<mapsto> \<lparr>span.Series = ''A'', Values = [3], span.Start = 0,
                                 span.End = 30000000000, Duration = 0, Score = 0,
                                 span.Passthrough = ()\<rparr>],
            nows = [''A'' \<mapsto> 30000000000]\<rparr>\<rparr>"
        "exampleRuling ''A'' 30000000000 35000000000 False 1"
        "\<lparr>span.Series = ''A'', Values = [3], span.Start = 0, span.End = 30000000000,
          Duration = 0, Score = 0, span.Passthrough = ()\<rparr>"
        1 exampleStats]
  by (simp add: getRulingValue_def exampleRuling_def exampleFilter_def SpanExpired_def
      seconds_eq Second_def time_Add_def time_After_def time_Equal_def)

section \<open>Runs of anomalous rulings of one sign\<close>

lemma getRulingValue_spanCache [simp]:
  "getRulingValue (f\<lparr>spanCache := c\<rparr>) r = getRulingValue f r"
  by (simp add: getRulingValue_def)

lemma getRulingValue_cong:
  "GatherConfig f' = GatherConfig f \<Longrightarrow> getRulingValue f' r = getRulingValue f r"
  by (simp add: getRulingValue_def)

lemma flushSpan_cong:
  "aggregator f' = aggregator f \<Longrightarrow> flushSpan stats f' sp = flushSpan stats f sp"
  by (simp add: flushSpan_def)

lemma gatherFilter_step_create:
  assumes "spans (spanCache f) (Window.Series (Window r)) = None"
    and "Anomalous r"
    and "getRulingValue f r = Some (Inr v)"
  shows "gatherFilter_step stats f r =
           Some (f\<lparr>spanCache := (spanCache f)
                    \<lparr>spans := (spans (spanCache f))
                       (Window.Series (Window r) \<mapsto> newSpan (Window.Series (Window r)) v r),
                     nows := (nows (spanCache f))
                       (Window.Series (Window r) \<mapsto> Window.End (Window r))\<rparr>\<rparr>, [])"
  using assms by (simp add: gatherFilter_step_def Let_def)

lemma gatherFilter_step_extend:
  assumes "spans (spanCache f) (Window.Series (Window r)) = Some sp"
    and "Values sp = v0 # vs0"
    and "Anomalous r"
    and "getRulingValue f r = Some (Inr v)"
    and "sameSign v0 v"
  shows "gatherFilter_step stats f r =
           Some (f\<lparr>spanCache := (spanCache f)
                    \<lparr>spans := (spans (spanCache f))
                       (Window.Series (Window r) \<mapsto>
                          sp\<lparr>Values := Values sp @ [v], span.End := Window.End (Window r)\<rparr>),
                     nows := (nows (spanCache f))
                       (Window.Series (Window r) \<mapsto> Window.End (Window r))\<rparr>\<rparr>, [])"
  using assms by (simp add: gatherFilter_step_def Let_def)

lemma gatherFilter_step_sign_change:
  assumes "spans (spanCache f) (Window.Series (Window r)) = Some sp"
    and "span.Series sp = Window.Series (Window r)"
    and "Values sp = v0 # vs0"
    and "Anomalous r"
    and "getRulingValue f r = Some (Inr v)"
    and "\<not> sameSign v0 v"
  shows "gatherFilter_step stats f r =
           Some (f\<lparr>spanCache := (spanCache f)
                    \<lparr>spans := (spans (spanCache f))
                       (Window.Series (Window r) \<mapsto> newSpan (Window.Series (Window r)) v r),
                     nows := (nows (spanCache f))(Window.Series (Window r) := None)\<rparr>\<rparr>,
                 snd (flushSpan stats f sp))"
  using assms
  by (simp add: gatherFilter_step_def Let_def FlushSpan_def flushSpan_def CalcScore_def
      split_beta split: sum.split)

lemma gatherFilter_Connect_append:
  "gatherFilter_Connect stats f (xs @ ys) =
     (case gatherFilter_Connect stats f xs of
        None \<Rightarrow> None
      | Some (f', out) \<Rightarrow>
          (case gatherFilter_Connect stats f' ys of
             None \<Rightarrow> None
           | Some (f'', outs) \<Rightarrow> Some (f'', out @ outs)))"
  by (induction xs arbitrary: f) (auto split: option.split)

lemma gatherFilter_Connect_extend:
  assumes "spans (spanCache f) s = Some sp"
    and "Values sp = v0 # vs0"
    and "list_all2 (\<lambda>r v. Window.Series (Window r) = s \<and> Anomalous r \<and>
           getRulingValue f r = Some (Inr v) \<and> sameSign v0 v) rs vs"
  shows "\<exists>f'. gatherFilter_Connect stats f rs = Some (f', []) \<and>
           spans (spanCache f') = (spans (spanCache f))
             (s \<mapsto> sp\<lparr>Values := Values sp @ vs,
                       span.End := last (span.End sp # map (\<lambda>r. Window.End (Window r)) rs)\<rparr>) \<and>
           GatherConfig f' = GatherConfig f \<and> aggregator f' = aggregator f \<and>
           lastDate f' = lastDate f"
  using assms
proof (induction rs arbitrary: f sp vs vs0)
  case Nil
  then show ?case by (simp add: map_upd_triv)
next
  case (Cons r rs)
  from Cons.prems(3) obtain v vs' where vs: "vs = v # vs'"
    and r: "Window.Series (Window r) = s" "Anomalous r" "getRulingValue f r = Some (Inr v)"
      "sameSign v0 v"
    and rest: "list_all2 (\<lambda>r v. Window.Series (Window r) = s \<and> Anomalous r \<and>
           getRulingValue f r = Some (Inr v) \<and> sameSign v0 v) rs vs'"
    by (auto simp add: list_all2_Cons1)
  let ?sp = "sp\<lparr>Values := Values sp @ [v], span.End := Window.End (Window r)\<rparr>"
  let ?f = "f\<lparr>spanCache := (spanCache f)
              \<lparr>spans := (spans (spanCache f))(s \<mapsto> ?sp),
               nows := (nows (spanCache f))(s \<mapsto> Window.End (Window r))\<rparr>\<rparr>"
  have step: "gatherFilter_step stats f r = Some (?f, [])"
    using gatherFilter_step_extend [of f r sp v0 vs0 v stats] Cons.prems(1,2) r by simp
  have "\<exists>f'. gatherFilter_Connect stats ?f rs = Some (f', []) \<and>
           spans (spanCache f') = (spans (spanCache ?f))
             (s \<mapsto> ?sp\<lparr>Values := Values ?sp @ vs',
                        span.End := last (span.End ?sp # map (\<lambda>r. Window.End (Window r)) rs)\<rparr>) \<and>
           GatherConfig f' = GatherConfig ?f \<and> aggregator f' = aggregator ?f \<and>
           lastDate f' = lastDate ?f"
  proof (rule Cons.IH)
    show "spans (spanCache ?f) s = Some ?sp" by simp
    show "Values ?sp = v0 # (vs0 @ [v])" using Cons.prems(2) by simp
    show "list_all2 (\<lambda>r v. Window.Series (Window r) = s \<and> Anomalous r \<and>
           getRulingValue ?f r = Some (Inr v) \<and> sameSign v0 v) rs vs'"
      using rest by simp
  qed
  then obtain f' where f': "gatherFilter_Connect stats ?f rs = Some (f', [])"
    "spans (spanCache f') = (spans (spanCache ?f))
             (s \<mapsto> ?sp\<lparr>Values := Values ?sp @ vs',
                        span.End := last (span.End ?sp # map (\<lambda>r. Window.End (Window r)) rs)\<rparr>)"
    "GatherConfig f' = GatherConfig ?f" "aggregator f' = aggregator ?f" "lastDate f' = lastDate ?f"
    by blast
  have A: "gatherFilter_Connect stats f (r # rs) = Some (f', [])"
    by (simp add: step f'(1))
  have B: "spans (spanCache f') = (spans (spanCache f))
             (s \<mapsto> sp\<lparr>Values := Values sp @ vs,
                       span.End := last (span.End sp # map (\<lambda>r. Window.End (Window r)) (r # rs))\<rparr>)"
    using f'(2) by (simp add: vs)
  have C: "GatherConfig f' = GatherConfig f" "aggregator f' = aggregator f"
    "lastDate f' = lastDate f"
    using f'(3,4,5) by simp_all
  show ?case
    using A B C by blast
qed

lemma gatherFilter_Connect_episode:
  assumes sp: "spans (spanCache f) s = Some sp" "span.Series sp = s" "Values sp = v0 # vs0"
    and run: "list_all2 (\<lambda>r v. Window.Series (Window r) = s \<and> Anomalous r \<and>
           getRulingValue f r = Some (Inr v) \<and> sameSign v0 v) rs vs"
    and r1: "Window.Series (Window r1) = s" "Anomalous r1" "getRulingValue f r1 = Some (Inr v1)"
      "\<not> sameSign v0 v1"
  shows "\<exists>f'. gatherFilter_Connect stats f (rs @ [r1]) =
             Some (f', snd (flushSpan stats f
               (sp\<lparr>Values := Values sp @ vs,
                    span.End := last (span.End sp # map (\<lambda>r. Window.End (Window r)) rs)\<rparr>))) \<and>
           spans (spanCache f') = (spans (spanCache f))(s \<mapsto> newSpan s v1 r1) \<and>
           GatherConfig f' = GatherConfig f \<and> aggregator f' = aggregator f \<and>
           lastDate f' = lastDate f"
proof -
  let ?sp = "sp\<lparr>Values := Values sp @ vs,
                  span.End := last (span.End sp # map (\<lambda>r. Window.End (Window r)) rs)\<rparr>"
  from gatherFilter_Connect_extend [OF sp(1) sp(3) run, of stats]
  obtain g where g: "gatherFilter_Connect stats f rs = Some (g, [])"
    "spans (spanCache g) = (spans (spanCache f))(s \<mapsto> ?sp)"
    "GatherConfig g = GatherConfig f" "aggregator g = aggregator f" "lastDate g = lastDate f"
    by blast
  let ?g = "g\<lparr>spanCache := (spanCache g)
              \<lparr>spans := (spans (spanCache g))(s \<mapsto> newSpan s v1 r1),
               nows := (nows (spanCache g))(s := None)\<rparr>\<rparr>"
  have "gatherFilter_step stats g r1 = Some (?g, snd (flushSpan stats g ?sp))"
    using gatherFilter_step_sign_change [of g r1 ?sp v0 "vs0 @ vs" v1 stats]
      g(2) sp(2,3) r1 getRulingValue_cong [OF g(3), of r1]
    by simp
  then have step: "gatherFilter_step stats g r1 = Some (?g, snd (flushSpan stats f ?sp))"
    by (simp add: flushSpan_cong [OF g(4)])
  have A: "gatherFilter_Connect stats f (rs @ [r1]) = Some (?g, snd (flushSpan stats f ?sp))"
    by (simp add: gatherFilter_Connect_append g(1) step)
  have B: "spans (spanCache ?g) = (spans (spanCache f))(s \<mapsto> newSpan s v1 r1)"
    by (simp add: g(2))
  have C: "GatherConfig ?g = GatherConfig f" "aggregator ?g = aggregator f"
    "lastDate ?g = lastDate f"
    using g(3,4,5) by simp_all
  show ?thesis
    using A B C by blast
qed

text \<open>
  A stream of one series: a run of one sign, the run of the other sign that follows it,
  and the sign change that ends that one.
\<close>

lemma gatherFilter_sign_runs_one_series:
  assumes none: "spans (spanCache f) s = None"
    and r0: "Window.Series (Window r0) = s" "Anomalous r0" "getRulingValue f r0 = Some (Inr v0)"
    and run0: "list_all2 (\<lambda>r v. Window.Series (Window r) = s \<and> Anomalous r \<and>
           getRulingValue f r = Some (Inr v) \<and> sameSign v0 v) rs vs"
    and r1: "Window.Series (Window r1) = s" "Anomalous r1" "getRulingValue f r1 = Some (Inr v1)"
      "\<not> sameSign v0 v1"
    and run1: "list_all2 (\<lambda>r v. Window.Series (Window r) = s \<and> Anomalous r \<and>
           getRulingValue f r = Some (Inr v) \<and> sameSign v1 v) rs1 vs1"
    and r2: "Window.Series (Window r2) = s" "Anomalous r2" "getRulingValue f r2 = Some (Inr v2)"
      "\<not> sameSign v1 v2"
    and scoreA: "stats (aggregator f) (v0 # vs) = Inr scoreA"
    and scoreB: "stats (aggregator f) (v1 # vs1) = Inr scoreB"
  shows "(\<exists>g. gatherFilter_Connect stats f (r0 # rs) = Some (g, []) \<and>
            spans (spanCache g) s =
              Some \<lparr>span.Series = s, Values = v0 # vs,
                    span.Start = Window.Start (Window r0),
                    span.End = Window.End (Window (last (r0 # rs))),
                    Duration = 0, Score = 0,
                    span.Passthrough = Window.Passthrough (Window r0)\<rparr>) \<and>
         (\<exists>f'. gatherFilter_Connect stats f (r0 # rs @ r1 # rs1 @ [r2]) =
              Some (f',
                [\<lparr>span.Series = s, Values = v0 # vs,
                  span.Start = Window.Start (Window r0),
                  span.End = Window.End (Window (last (r0 # rs))),
                  Duration = time_Sub (Window.End (Window (last (r0 # rs))))
                               (Window.Start (Window r0)),
                  Score = scoreA,
                  span.Passthrough = Window.Passthrough (Window r0)\<rparr>,
                 \<lparr>span.Series = s, Values = v1 # vs1,
                  span.Start = Window.Start (Window r1),
                  span.End = Window.End (Window (last (r1 # rs1))),
                  Duration = time_Sub (Window.End (Window (last (r1 # rs1))))
                               (Window.Start (Window r1)),
                  Score = scoreB,
                  span.Passthrough = Window.Passthrough (Window r1)\<rparr>]) \<and>
            spans (spanCache f') s = Some (newSpan s v2 r2))"
proof -
  let ?f0 = "f\<lparr>spanCache := (spanCache f)
              \<lparr>spans := (spans (spanCache f))(s \<mapsto> newSpan s v0 r0),
               nows := (nows (spanCache f))(s \<mapsto> Window.End (Window r0))\<rparr>\<rparr>"
  have step0: "gatherFilter_step stats f r0 = Some (?f0, [])"
    using gatherFilter_step_create [of f r0 v0 stats] none r0 by simp
  have last0: "last (Window.End (Window r0) # map (\<lambda>r. Window.End (Window r)) rs) =
      Window.End (Window (last (r0 # rs)))"
    by (simp add: last_map)
  have last1: "last (Window.End (Window r1) # map (\<lambda>r. Window.End (Window r)) rs1) =
      Window.End (Window (last (r1 # rs1)))"
    by (simp add: last_map)
  let ?A = "\<lparr>span.Series = s, Values = v0 # vs, span.Start = Window.Start (Window r0),
             span.End = Window.End (Window (last (r0 # rs))), Duration = 0, Score = 0,
             span.Passthrough = Window.Passthrough (Window r0)\<rparr>"
  let ?B = "\<lparr>span.Series = s, Values = v1 # vs1, span.Start = Window.Start (Window r1),
             span.End = Window.End (Window (last (r1 # rs1))), Duration = 0, Score = 0,
             span.Passthrough = Window.Passthrough (Window r1)\<rparr>"
  have A: "(newSpan s v0 r0)\<lparr>Values := Values (newSpan s v0 r0) @ vs,
      span.End := last (span.End (newSpan s v0 r0) # map (\<lambda>r. Window.End (Window r)) rs)\<rparr> = ?A"
    using last0 by (simp add: newSpan_def)
  have B: "(newSpan s v1 r1)\<lparr>Values := Values (newSpan s v1 r1) @ vs1,
      span.End := last (span.End (newSpan s v1 r1) # map (\<lambda>r. Window.End (Window r)) rs1)\<rparr> = ?B"
    using last1 by (simp add: newSpan_def)
  have run0': "list_all2 (\<lambda>r v. Window.Series (Window r) = s \<and> Anomalous r \<and>
           getRulingValue ?f0 r = Some (Inr v) \<and> sameSign v0 v) rs vs"
    using run0 by simp
  have part1: "\<exists>g. gatherFilter_Connect stats f (r0 # rs) = Some (g, []) \<and>
            spans (spanCache g) s = Some ?A"
  proof -
    from gatherFilter_Connect_extend [of ?f0 s "newSpan s v0 r0" v0 "[]" rs vs stats] run0'
    obtain g where g: "gatherFilter_Connect stats ?f0 rs = Some (g, [])"
      "spans (spanCache g) = (spans (spanCache ?f0))(s \<mapsto>
         (newSpan s v0 r0)\<lparr>Values := Values (newSpan s v0 r0) @ vs,
           span.End := last (span.End (newSpan s v0 r0) # map (\<lambda>r. Window.End (Window r)) rs)\<rparr>)"
      by (auto simp add: newSpan_def)
    have "gatherFilter_Connect stats f (r0 # rs) = Some (g, [])"
      by (simp add: step0 g(1))
    moreover have "spans (spanCache g) s = Some ?A"
      by (simp only: g(2) A fun_upd_same)
    ultimately show ?thesis by blast
  qed
  from gatherFilter_Connect_episode [of ?f0 s "newSpan s v0 r0" v0 "[]" rs vs r1 v1 stats]
    run0' r1
  obtain f1 where f1: "gatherFilter_Connect stats ?f0 (rs @ [r1]) =
      Some (f1, snd (flushSpan stats ?f0
         ((newSpan s v0 r0)\<lparr>Values := Values (newSpan s v0 r0) @ vs,
           span.End := last (span.End (newSpan s v0 r0) # map (\<lambda>r. Window.End (Window r)) rs)\<rparr>)))"
    "spans (spanCache f1) = (spans (spanCache ?f0))(s \<mapsto> newSpan s v1 r1)"
    "GatherConfig f1 = GatherConfig ?f0" "aggregator f1 = aggregator ?f0"
    by (auto simp add: newSpan_def)
  have cfg1: "GatherConfig f1 = GatherConfig f" and agg1: "aggregator f1 = aggregator f"
    using f1(3,4) by simp_all
  have outA: "snd (flushSpan stats ?f0 ?A) =
      [?A\<lparr>Duration := time_Sub (span.End ?A) (span.Start ?A), Score := scoreA\<rparr>]"
    using scoreA by (simp add: flushSpan_succeeds)
  have first: "gatherFilter_Connect stats f (r0 # rs @ [r1]) =
      Some (f1, [?A\<lparr>Duration := time_Sub (span.End ?A) (span.Start ?A), Score := scoreA\<rparr>])"
    using f1(1) by (simp only: gatherFilter_Connect.simps step0 A outA) simp
  have run1': "list_all2 (\<lambda>r v. Window.Series (Window r) = s \<and> Anomalous r \<and>
           getRulingValue f1 r = Some (Inr v) \<and> sameSign v1 v) rs1 vs1"
    using run1 by (simp add: getRulingValue_cong [OF cfg1])
  have sp1: "spans (spanCache f1) s = Some (newSpan s v1 r1)"
    by (simp add: f1(2))
  from gatherFilter_Connect_episode [of f1 s "newSpan s v1 r1" v1 "[]" rs1 vs1 r2 v2 stats]
    sp1 run1' r2 getRulingValue_cong [OF cfg1, of r2]
  obtain f2 where f2: "gatherFilter_Connect stats f1 (rs1 @ [r2]) =
      Some (f2, snd (flushSpan stats f1
         ((newSpan s v1 r1)\<lparr>Values := Values (newSpan s v1 r1) @ vs1,
           span.End := last (span.End (newSpan s v1 r1) # map (\<lambda>r. Window.End (Window r)) rs1)\<rparr>)))"
    "spans (spanCache f2) = (spans (spanCache f1))(s \<mapsto> newSpan s v2 r2)"
    by (auto simp add: newSpan_def)
  have outB: "snd (flushSpan stats f1 ?B) =
      [?B\<lparr>Duration := time_Sub (span.End ?B) (span.Start ?B), Score := scoreB\<rparr>]"
    using scoreB agg1 by (simp add: flushSpan_succeeds)
  have second: "gatherFilter_Connect stats f1 (rs1 @ [r2]) =
      Some (f2, [?B\<lparr>Duration := time_Sub (span.End ?B) (span.Start ?B), Score := scoreB\<rparr>])"
    using f2(1) by (simp only: B outB)
  have split: "r0 # rs @ r1 # rs1 @ [r2] = (r0 # rs @ [r1]) @ (rs1 @ [r2])"
    by simp
  have "gatherFilter_Connect stats f ((r0 # rs @ [r1]) @ (rs1 @ [r2])) =
      Some (f2, [?A\<lparr>Duration := time_Sub (span.End ?A) (span.Start ?A), Score := scoreA\<rparr>] @
                [?B\<lparr>Duration := time_Sub (span.End ?B) (span.Start ?B), Score := scoreB\<rparr>])"
    by (simp only: gatherFilter_Connect_append [of stats f "r0 # rs @ [r1]" "rs1 @ [r2]"]
        first second option.case prod.case)
  then have "gatherFilter_Connect stats f (r0 # rs @ r1 # rs1 @ [r2]) =
      Some (f2, [?A\<lparr>Duration := time_Sub (span.End ?A) (span.Start ?A), Score := scoreA\<rparr>,
                 ?B\<lparr>Duration := time_Sub (span.End ?B) (span.Start ?B), Score := scoreB\<rparr>])"
    by (simp only: split append.simps)
  moreover have "spans (spanCache f2) s = Some (newSpan s v2 r2)"
    by (simp add: f2(2))
  ultimately have part2: "\<exists>f'. gatherFilter_Connect stats f (r0 # rs @ r1 # rs1 @ [r2]) =
      Some (f', [?A\<lparr>Duration := time_Sub (span.End ?A) (span.Start ?A), Score := scoreA\<rparr>,
                 ?B\<lparr>Duration := time_Sub (span.End ?B) (span.Start ?B), Score := scoreB\<rparr>]) \<and>
      spans (spanCache f') s = Some (newSpan s v2 r2)"
    by blast
  from part1 part2 show ?thesis
    by simp
qed

subsection \<open>Series do not interfere\<close>

lemma gatherFilter_step_effect:
  assumes step: "gatherFilter_step stats f r = Some (f1, o1)"
    and keyed: "\<And>sp. spans (spanCache f) (Window.Series (Window r)) = Some sp \<Longrightarrow>
                  span.Series sp = Window.Series (Window r) \<and> Values sp \<noteq> []"
  shows "GatherConfig f1 = GatherConfig f \<and> aggregator f1 = aggregator f \<and>
         lastDate f1 = lastDate f"
    and "\<forall>k. k \<noteq> Window.Series (Window r) \<longrightarrow> spans (spanCache f1) k = spans (spanCache f) k"
    and "\<forall>sp1. spans (spanCache f1) (Window.Series (Window r)) = Some sp1 \<longrightarrow>
           span.Series sp1 = Window.Series (Window r) \<and> Values sp1 \<noteq> []"
    and "\<forall>x\<in>set o1. span.Series x = Window.Series (Window r)"
proof -
  let ?t = "Window.Series (Window r)"
  show "GatherConfig f1 = GatherConfig f \<and> aggregator f1 = aggregator f \<and>
         lastDate f1 = lastDate f"
    using step
    by (auto simp add: gatherFilter_step_def Let_def FlushSpan_def split_beta
        split: option.splits sum.splits list.splits if_splits)
  show "\<forall>k. k \<noteq> ?t \<longrightarrow> spans (spanCache f1) k = spans (spanCache f) k"
  proof (cases "spans (spanCache f) ?t")
    case None
    with step show ?thesis
      by (auto simp add: gatherFilter_step_def Let_def
          split: option.splits sum.splits if_splits)
  next
    case (Some sp)
    with keyed have "span.Series sp = ?t" by blast
    with step Some show ?thesis
      by (auto simp add: gatherFilter_step_def Let_def FlushSpan_def flushSpan_def
          CalcScore_def split_beta
          split: option.splits sum.splits list.splits if_splits)
  qed
  show "\<forall>sp1. spans (spanCache f1) ?t = Some sp1 \<longrightarrow> span.Series sp1 = ?t \<and> Values sp1 \<noteq> []"
  proof (cases "spans (spanCache f) ?t")
    case None
    with step show ?thesis
      by (auto simp add: gatherFilter_step_def Let_def newSpan_def
          split: option.splits sum.splits if_splits)
  next
    case (Some sp)
    with keyed have "span.Series sp = ?t" "Values sp \<noteq> []" by blast+
    with step Some show ?thesis
      by (auto simp add: gatherFilter_step_def Let_def FlushSpan_def flushSpan_def
          CalcScore_def split_beta newSpan_def
          split: option.splits sum.splits list.splits if_splits)
  qed
  show "\<forall>x\<in>set o1. span.Series x = ?t"
  proof (cases "spans (spanCache f) ?t")
    case None
    with step show ?thesis
      by (auto simp add: gatherFilter_step_def Let_def
          split: option.splits sum.splits if_splits)
  next
    case (Some sp)
    with keyed have "span.Series sp = ?t" by blast
    with step Some show ?thesis
      by (auto simp add: gatherFilter_step_def Let_def FlushSpan_def flushSpan_def
          CalcScore_def split_beta
          split: option.splits sum.splits list.splits if_splits)
  qed
qed

lemma gatherFilter_step_agree:
  assumes "GatherConfig g = GatherConfig f" and "aggregator g = aggregator f"
    and "lastDate g = lastDate f"
    and "spans (spanCache g) (Window.Series (Window r)) = spans (spanCache f) (Window.Series (Window r))"
  shows "map_option (\<lambda>(f1, o1). (spans (spanCache f1) (Window.Series (Window r)), o1))
           (gatherFilter_step stats g r) =
         map_option (\<lambda>(f1, o1). (spans (spanCache f1) (Window.Series (Window r)), o1))
           (gatherFilter_step stats f r)"
  using assms
  by (simp add: gatherFilter_step_def getRulingValue_def SpanExpired_def FlushSpan_def
      flushSpan_def Let_def split_beta
      split: option.split sum.split list.split fieldval.split)

lemma gatherFilter_step_total:
  assumes "getRulingValue f r \<noteq> None"
    and "\<And>sp. spans (spanCache f) (Window.Series (Window r)) = Some sp \<Longrightarrow> Values sp \<noteq> []"
  shows "gatherFilter_step stats f r \<noteq> None"
proof (cases "spans (spanCache f) (Window.Series (Window r))")
  case None
  with assms(1) show ?thesis
    by (auto simp add: gatherFilter_step_def Let_def split: option.splits sum.splits)
next
  case (Some sp)
  with assms(2) have "Values sp \<noteq> []" by blast
  with assms(1) Some show ?thesis
    by (auto simp add: gatherFilter_step_def Let_def split_beta
        split: option.splits sum.splits list.splits)
qed

lemma gatherFilter_step_invariant:
  assumes inv: "\<forall>k sp. spans (spanCache f) k = Some sp \<longrightarrow> span.Series sp = k \<and> Values sp \<noteq> []"
    and step: "gatherFilter_step stats f r = Some (f1, o1)"
  shows "\<forall>k sp. spans (spanCache f1) k = Some sp \<longrightarrow> span.Series sp = k \<and> Values sp \<noteq> []"
proof (intro allI impI)
  fix k sp
  assume k: "spans (spanCache f1) k = Some sp"
  have keyed: "\<And>sp. spans (spanCache f) (Window.Series (Window r)) = Some sp \<Longrightarrow>
      span.Series sp = Window.Series (Window r) \<and> Values sp \<noteq> []"
    using inv by blast
  show "span.Series sp = k \<and> Values sp \<noteq> []"
  proof (cases "k = Window.Series (Window r)")
    case True
    with gatherFilter_step_effect(3) [OF step keyed] k show ?thesis by blast
  next
    case False
    with gatherFilter_step_effect(2) [OF step keyed] k
    have "spans (spanCache f) k = Some sp" by simp
    with inv show ?thesis by blast
  qed
qed

lemma gatherFilter_Connect_series:
  assumes inv: "\<forall>k sp. spans (spanCache f) k = Some sp \<longrightarrow> span.Series sp = k \<and> Values sp \<noteq> []"
    and frame: "GatherConfig g = GatherConfig f" "aggregator g = aggregator f"
      "lastDate g = lastDate f"
    and agree: "spans (spanCache g) s = spans (spanCache f) s"
    and run: "gatherFilter_Connect stats f rs = Some (f', out)"
  shows "\<exists>g'. gatherFilter_Connect stats g (filter (\<lambda>r. Window.Series (Window r) = s) rs) =
              Some (g', filter (\<lambda>sp. span.Series sp = s) out) \<and>
            spans (spanCache g') s = spans (spanCache f') s"
  using assms
proof (induction rs arbitrary: f g out)
  case Nil
  then show ?case by simp
next
  case (Cons r rs)
  from Cons.prems(6) obtain f1 o1 outs where
    step: "gatherFilter_step stats f r = Some (f1, o1)"
    and rest: "gatherFilter_Connect stats f1 rs = Some (f', outs)"
    and out: "out = o1 @ outs"
    by (auto split: option.splits)
  have keyed: "\<And>sp. spans (spanCache f) (Window.Series (Window r)) = Some sp \<Longrightarrow>
      span.Series sp = Window.Series (Window r) \<and> Values sp \<noteq> []"
    using Cons.prems(1) by blast
  note eff = gatherFilter_step_effect [OF step keyed]
  have inv1: "\<forall>k sp. spans (spanCache f1) k = Some sp \<longrightarrow> span.Series sp = k \<and> Values sp \<noteq> []"
    by (rule gatherFilter_step_invariant [OF Cons.prems(1) step])
  show ?case
  proof (cases "Window.Series (Window r) = s")
    case True
    have "map_option (\<lambda>(f1, o1). (spans (spanCache f1) (Window.Series (Window r)), o1))
           (gatherFilter_step stats g r) =
         map_option (\<lambda>(f1, o1). (spans (spanCache f1) (Window.Series (Window r)), o1))
           (gatherFilter_step stats f r)"
      using Cons.prems(2,3,4,5) True by (intro gatherFilter_step_agree) simp_all
    with step True obtain g1 where
      gstep: "gatherFilter_step stats g r = Some (g1, o1)"
      and g1: "spans (spanCache g1) s = spans (spanCache f1) s"
      by (cases "gatherFilter_step stats g r") auto
    have gkeyed: "span.Series sp = Window.Series (Window r) \<and> Values sp \<noteq> []"
      if "spans (spanCache g) (Window.Series (Window r)) = Some sp" for sp
    proof -
      from that Cons.prems(5) True have "spans (spanCache f) (Window.Series (Window r)) = Some sp"
        by simp
      then show ?thesis by (rule keyed)
    qed
    from gatherFilter_step_effect(1) [OF gstep gkeyed] eff(1) Cons.prems(2,3,4)
    have frame1: "GatherConfig g1 = GatherConfig f1" "aggregator g1 = aggregator f1"
      "lastDate g1 = lastDate f1"
      by simp_all
    from Cons.IH [OF inv1 frame1 g1 rest] obtain g' where
      g': "gatherFilter_Connect stats g1 (filter (\<lambda>r. Window.Series (Window r) = s) rs) =
              Some (g', filter (\<lambda>sp. span.Series sp = s) outs)"
        "spans (spanCache g') s = spans (spanCache f') s"
      by blast
    have "filter (\<lambda>sp. span.Series sp = s) o1 = o1"
      using eff(4) True by (simp add: filter_id_conv)
    with g' gstep True out show ?thesis
      by simp
  next
    case False
    have "filter (\<lambda>sp. span.Series sp = s) o1 = []"
      using eff(4) False by (simp add: filter_empty_conv)
    moreover have "GatherConfig g = GatherConfig f1" "aggregator g = aggregator f1"
      "lastDate g = lastDate f1" "spans (spanCache g) s = spans (spanCache f1) s"
      using eff(1,2) Cons.prems(2,3,4,5) False by simp_all
    ultimately show ?thesis
      using Cons.IH [OF inv1 _ _ _ _ rest, of g] False out by simp
  qed
qed

lemma gatherFilter_Connect_total:
  assumes inv: "\<forall>k sp. spans (spanCache f) k = Some sp \<longrightarrow> span.Series sp = k \<and> Values sp \<noteq> []"
    and fields: "\<forall>r\<in>set rs. getRulingValue f r \<noteq> None"
  shows "\<exists>f' out. gatherFilter_Connect stats f rs = Some (f', out)"
  using assms
proof (induction rs arbitrary: f)
  case Nil
  then show ?case by simp
next
  case (Cons r rs)
  have keyed: "span.Series sp = Window.Series (Window r) \<and> Values sp \<noteq> []"
    if "spans (spanCache f) (Window.Series (Window r)) = Some sp" for sp
    using Cons.prems(1) that by blast
  have "gatherFilter_step stats f r \<noteq> None"
  proof (rule gatherFilter_step_total)
    show "getRulingValue f r \<noteq> None"
      using Cons.prems(2) by simp
    show "Values sp \<noteq> []" if "spans (spanCache f) (Window.Series (Window r)) = Some sp" for sp
      using keyed [OF that] by simp
  qed
  then obtain f1 o1 where step: "gatherFilter_step stats f r = Some (f1, o1)"
    by (cases "gatherFilter_step stats f r") auto
  have inv1: "\<forall>k sp. spans (spanCache f1) k = Some sp \<longrightarrow> span.Series sp = k \<and> Values sp \<noteq> []"
    by (rule gatherFilter_step_invariant [OF Cons.prems(1) step])
  have cfg: "GatherConfig f1 = GatherConfig f"
    using gatherFilter_step_effect(1) [OF step keyed] by simp
  have "\<forall>r\<in>set rs. getRulingValue f1 r \<noteq> None"
    using Cons.prems(2) by (simp add: getRulingValue_cong [OF cfg])
  from Cons.IH [OF inv1 this] obtain f' outs where
    "gatherFilter_Connect stats f1 rs = Some (f', outs)"
    by blast
  with step show ?case
    by simp
qed

lemma list_all2_conj_left:
  assumes "list_all2 P xs ys" and "\<forall>x\<in>set xs. Q x"
  shows "list_all2 (\<lambda>x y. Q x \<and> P x y) xs ys"
  using assms by (induction xs ys rule: list_all2_induct) simp_all

lemma gatherFilter_run_one_series:
  assumes none: "spans (spanCache f) s = None"
    and r0: "Window.Series (Window r0) = s" "Anomalous r0" "getRulingValue f r0 = Some (Inr v0)"
    and run0: "list_all2 (\<lambda>r v. Window.Series (Window r) = s \<and> Anomalous r \<and>
           getRulingValue f r = Some (Inr v) \<and> sameSign v0 v) rs vs"
  shows "\<exists>g. gatherFilter_Connect stats f (r0 # rs) = Some (g, []) \<and>
            spans (spanCache g) s =
              Some \<lparr>span.Series = s, Values = v0 # vs,
                    span.Start = Window.Start (Window r0),
                    span.End = Window.End (Window (last (r0 # rs))),
                    Duration = 0, Score = 0,
                    span.Passthrough = Window.Passthrough (Window r0)\<rparr>"
proof -
  let ?f0 = "f\<lparr>spanCache := (spanCache f)
              \<lparr>spans := (spans (spanCache f))(s \<mapsto> newSpan s v0 r0),
               nows := (nows (spanCache f))(s \<mapsto> Window.End (Window r0))\<rparr>\<rparr>"
  let ?A = "\<lparr>span.Series = s, Values = v0 # vs, span.Start = Window.Start (Window r0),
             span.End = Window.End (Window (last (r0 # rs))), Duration = 0, Score = 0,
             span.Passthrough = Window.Passthrough (Window r0)\<rparr>"
  have step0: "gatherFilter_step stats f r0 = Some (?f0, [])"
    using gatherFilter_step_create [of f r0 v0 stats] none r0 by simp
  have last0: "last (Window.End (Window r0) # map (\<lambda>r. Window.End (Window r)) rs) =
      Window.End (Window (last (r0 # rs)))"
    by (simp add: last_map)
  have A: "(newSpan s v0 r0)\<lparr>Values := Values (newSpan s v0 r0) @ vs,
      span.End := last (span.End (newSpan s v0 r0) # map (\<lambda>r. Window.End (Window r)) rs)\<rparr> = ?A"
    using last0 by (simp add: newSpan_def)
  have run0': "list_all2 (\<lambda>r v. Window.Series (Window r) = s \<and> Anomalous r \<and>
           getRulingValue ?f0 r = Some (Inr v) \<and> sameSign v0 v) rs vs"
    using run0 by simp
  from gatherFilter_Connect_extend [of ?f0 s "newSpan s v0 r0" v0 "[]" rs vs stats] run0'
  obtain g where g: "gatherFilter_Connect stats ?f0 rs = Some (g, [])"
    "spans (spanCache g) = (spans (spanCache ?f0))(s \<mapsto>
       (newSpan s v0 r0)\<lparr>Values := Values (newSpan s v0 r0) @ vs,
         span.End := last (span.End (newSpan s v0 r0) # map (\<lambda>r. Window.End (Window r)) rs)\<rparr>)"
    by (auto simp add: newSpan_def)
  have "gatherFilter_Connect stats f (r0 # rs) = Some (g, [])"
    by (simp add: step0 g(1))
  moreover have "spans (spanCache g) s = Some ?A"
    by (simp only: g(2) A fun_upd_same)
  ultimately show ?thesis by blast
qed

text \<open>
  C1. For every series \<open>s\<close>, in a stream in which the rulings of other series may be
  interleaved, from a cache that has no span of \<open>s\<close>: an anomalous ruling \<open>r0\<close> of \<open>s\<close>
  with magnitude \<open>v0\<close> starts a span, and the anomalous rulings \<open>rs\<close> of \<open>s\<close> that follow,
  whose magnitudes \<open>vs\<close> have the sign of \<open>v0\<close> (the test of the code, on the first
  recorded magnitude), are merged into that one span: no span of \<open>s\<close> is sent, and the
  span of the cache has exactly the magnitudes \<open>v0 # vs\<close> in arrival order, the start of
  the first window and the end of the last one. An anomalous ruling \<open>r1\<close> of the other
  sign flushes that span and starts a new one from \<open>r1\<close>, which merges the run \<open>rs1\<close>
  of its own sign until \<open>r2\<close> changes the sign again: where the statistic succeeds on
  both sequences, the spans of \<open>s\<close> that are sent are exactly these two, in this order,
  the first with the magnitudes \<open>v0 # vs\<close> and the second with \<open>v1 # vs1\<close>, and the cache
  holds the span started by \<open>r2\<close>. \<^verbatim>\<open>Connect\<close> gets through every stream of rulings
  whose value field, where present, is a floating-point field. (Every span of the cache
  is stored under its own series and has a magnitude, as in every state that
  \<^verbatim>\<open>Connect\<close> reaches from the empty cache of \<^verbatim>\<open>Init\<close>.)
\<close>

theorem gatherFilter_sign_runs:
  assumes inv: "\<forall>k sp. spans (spanCache f) k = Some sp \<longrightarrow> span.Series sp = k \<and> Values sp \<noteq> []"
    and none: "spans (spanCache f) s = None"
    and r0: "Anomalous r0" "getRulingValue f r0 = Some (Inr v0)"
    and run0: "list_all2 (\<lambda>r v. Anomalous r \<and> getRulingValue f r = Some (Inr v) \<and>
           sameSign v0 v) rs vs"
    and r1: "Anomalous r1" "getRulingValue f r1 = Some (Inr v1)" "\<not> sameSign v0 v1"
    and run1: "list_all2 (\<lambda>r v. Anomalous r \<and> getRulingValue f r = Some (Inr v) \<and>
           sameSign v1 v) rs1 vs1"
    and r2: "Anomalous r2" "getRulingValue f r2 = Some (Inr v2)" "\<not> sameSign v1 v2"
    and scoreA: "stats (aggregator f) (v0 # vs) = Inr scoreA"
    and scoreB: "stats (aggregator f) (v1 # vs1) = Inr scoreB"
  shows "(\<forall>rulings. (\<forall>r\<in>set rulings. getRulingValue f r \<noteq> None) \<longrightarrow>
            gatherFilter_Connect stats f rulings \<noteq> None) \<and>
         (\<forall>rulings f' out.
            filter (\<lambda>r. Window.Series (Window r) = s) rulings = r0 # rs \<longrightarrow>
            gatherFilter_Connect stats f rulings = Some (f', out) \<longrightarrow>
            filter (\<lambda>sp. span.Series sp = s) out = [] \<and>
            spans (spanCache f') s =
              Some \<lparr>span.Series = s, Values = v0 # vs,
                    span.Start = Window.Start (Window r0),
                    span.End = Window.End (Window (last (r0 # rs))),
                    Duration = 0, Score = 0,
                    span.Passthrough = Window.Passthrough (Window r0)\<rparr>) \<and>
         (\<forall>rulings f' out.
            filter (\<lambda>r. Window.Series (Window r) = s) rulings = r0 # rs @ r1 # rs1 @ [r2] \<longrightarrow>
            gatherFilter_Connect stats f rulings = Some (f', out) \<longrightarrow>
            filter (\<lambda>sp. span.Series sp = s) out =
              [\<lparr>span.Series = s, Values = v0 # vs,
                span.Start = Window.Start (Window r0),
                span.End = Window.End (Window (last (r0 # rs))),
                Duration = time_Sub (Window.End (Window (last (r0 # rs))))
                             (Window.Start (Window r0)),
                Score = scoreA,
                span.Passthrough = Window.Passthrough (Window r0)\<rparr>,
               \<lparr>span.Series = s, Values = v1 # vs1,
                span.Start = Window.Start (Window r1),
                span.End = Window.End (Window (last (r1 # rs1))),
                Duration = time_Sub (Window.End (Window (last (r1 # rs1))))
                             (Window.Start (Window r1)),
                Score = scoreB,
                span.Passthrough = Window.Passthrough (Window r1)\<rparr>] \<and>
            spans (spanCache f') s = Some (newSpan s v2 r2))"
proof -
  have total: "gatherFilter_Connect stats f rulings \<noteq> None"
    if "\<forall>r\<in>set rulings. getRulingValue f r \<noteq> None" for rulings
    using gatherFilter_Connect_total [OF inv that, of stats] by auto
  have part: "\<exists>g'. gatherFilter_Connect stats f xs =
        Some (g', filter (\<lambda>sp. span.Series sp = s) out) \<and>
      spans (spanCache g') s = spans (spanCache f') s"
    if "filter (\<lambda>r. Window.Series (Window r) = s) rulings = xs"
      and "gatherFilter_Connect stats f rulings = Some (f', out)" for rulings xs f' out
    using gatherFilter_Connect_series [OF inv refl refl refl refl that(2), of s] that(1)
    by simp
  have first: "filter (\<lambda>sp. span.Series sp = s) out = [] \<and>
      spans (spanCache f') s =
        Some \<lparr>span.Series = s, Values = v0 # vs, span.Start = Window.Start (Window r0),
              span.End = Window.End (Window (last (r0 # rs))), Duration = 0, Score = 0,
              span.Passthrough = Window.Passthrough (Window r0)\<rparr>"
    if proj: "filter (\<lambda>r. Window.Series (Window r) = s) rulings = r0 # rs"
      and ret: "gatherFilter_Connect stats f rulings = Some (f', out)" for rulings f' out
  proof -
    from filter_eq_all [OF proj] have s0: "Window.Series (Window r0) = s"
      and ss: "\<forall>r\<in>set rs. Window.Series (Window r) = s"
      by simp_all
    have run0': "list_all2 (\<lambda>r v. Window.Series (Window r) = s \<and> Anomalous r \<and>
           getRulingValue f r = Some (Inr v) \<and> sameSign v0 v) rs vs"
      by (rule list_all2_conj_left [OF run0 ss])
    from gatherFilter_run_one_series
      [where f = f and s = s and stats = stats and ?r0.0 = r0 and ?v0.0 = v0 and rs = rs
         and vs = vs, OF none s0 r0 run0']
    obtain g where g: "gatherFilter_Connect stats f (r0 # rs) = Some (g, [])"
      "spans (spanCache g) s =
        Some \<lparr>span.Series = s, Values = v0 # vs, span.Start = Window.Start (Window r0),
              span.End = Window.End (Window (last (r0 # rs))), Duration = 0, Score = 0,
              span.Passthrough = Window.Passthrough (Window r0)\<rparr>"
      by blast
    from part [OF proj ret] g show ?thesis
      by auto
  qed
  have second: "filter (\<lambda>sp. span.Series sp = s) out =
              [\<lparr>span.Series = s, Values = v0 # vs,
                span.Start = Window.Start (Window r0),
                span.End = Window.End (Window (last (r0 # rs))),
                Duration = time_Sub (Window.End (Window (last (r0 # rs))))
                             (Window.Start (Window r0)),
                Score = scoreA,
                span.Passthrough = Window.Passthrough (Window r0)\<rparr>,
               \<lparr>span.Series = s, Values = v1 # vs1,
                span.Start = Window.Start (Window r1),
                span.End = Window.End (Window (last (r1 # rs1))),
                Duration = time_Sub (Window.End (Window (last (r1 # rs1))))
                             (Window.Start (Window r1)),
                Score = scoreB,
                span.Passthrough = Window.Passthrough (Window r1)\<rparr>] \<and>
            spans (spanCache f') s = Some (newSpan s v2 r2)"
    if proj: "filter (\<lambda>r. Window.Series (Window r) = s) rulings = r0 # rs @ r1 # rs1 @ [r2]"
      and ret: "gatherFilter_Connect stats f rulings = Some (f', out)" for rulings f' out
  proof -
    from filter_eq_all [OF proj] have s0: "Window.Series (Window r0) = s"
      and ss: "\<forall>r\<in>set rs. Window.Series (Window r) = s"
      and s1: "Window.Series (Window r1) = s"
      and ss1: "\<forall>r\<in>set rs1. Window.Series (Window r) = s"
      and s2: "Window.Series (Window r2) = s"
      by simp_all
    have run0': "list_all2 (\<lambda>r v. Window.Series (Window r) = s \<and> Anomalous r \<and>
           getRulingValue f r = Some (Inr v) \<and> sameSign v0 v) rs vs"
      by (rule list_all2_conj_left [OF run0 ss])
    have run1': "list_all2 (\<lambda>r v. Window.Series (Window r) = s \<and> Anomalous r \<and>
           getRulingValue f r = Some (Inr v) \<and> sameSign v1 v) rs1 vs1"
      by (rule list_all2_conj_left [OF run1 ss1])
    from gatherFilter_sign_runs_one_series
      [where f = f and s = s and stats = stats and ?r0.0 = r0 and ?v0.0 = v0 and rs = rs
         and vs = vs and ?r1.0 = r1 and ?v1.0 = v1 and ?rs1.0 = rs1 and ?vs1.0 = vs1
         and ?r2.0 = r2 and ?v2.0 = v2 and scoreA = scoreA and scoreB = scoreB,
       OF none s0 r0 run0' s1 r1 run1' s2 r2 scoreA scoreB]
    obtain g where g: "gatherFilter_Connect stats f (r0 # rs @ r1 # rs1 @ [r2]) =
        Some (g,
              [\<lparr>span.Series = s, Values = v0 # vs,
                span.Start = Window.Start (Window r0),
                span.End = Window.End (Window (last (r0 # rs))),
                Duration = time_Sub (Window.End (Window (last (r0 # rs))))
                             (Window.Start (Window r0)),
                Score = scoreA,
                span.Passthrough = Window.Passthrough (Window r0)\<rparr>,
               \<lparr>span.Series = s, Values = v1 # vs1,
                span.Start = Window.Start (Window r1),
                span.End = Window.End (Window (last (r1 # rs1))),
                Duration = time_Sub (Window.End (Window (last (r1 # rs1))))
                             (Window.Start (Window r1)),
                Score = scoreB,
                span.Passthrough = Window.Passthrough (Window r1)\<rparr>])"
      "spans (spanCache g) s = Some (newSpan s v2 r2)"
      by blast
    from part [OF proj ret] g show ?thesis
      by auto
  qed
  from total first second show ?thesis
    by blast
qed

theorem gatherFilter_sign_runs_witness:
  "\<exists>f' out.
     gatherFilter_Connect exampleStats exampleFilter
       [exampleRuling ''A'' 0 30000000000 True 3,
        exampleRuling ''B'' 0 30000000000 True (- 7),
        exampleRuling ''A'' 30000000000 60000000000 True 2,
        exampleRuling ''A'' 60000000000 90000000000 True (- 1),
        exampleRuling ''B'' 30000000000 60000000000 False 1,
        exampleRuling ''A'' 90000000000 120000000000 True 5] = Some (f', out) \<and>
     filter (\<lambda>sp. span.Series sp = ''A'') out =
       [\<lparr>span.Series = ''A'', Values = [3, 2], span.Start = 0, span.End = 60000000000,
         Duration = 60000000000, Score = 5, span.Passthrough = ()\<rparr>,
        \<lparr>span.Series = ''A'', Values = [- 1], span.Start = 60000000000,
         span.End = 90000000000, Duration = 30000000000, Score = - 1,
         span.Passthrough = ()\<rparr>] \<and>
     spans (spanCache f') ''A'' =
       Some \<lparr>span.Series = ''A'', Values = [5], span.Start = 90000000000,
             span.End = 120000000000, Duration = 0, Score = 0, span.Passthrough = ()\<rparr>"
proof -
  let ?rulings = "[exampleRuling ''A'' 0 30000000000 True 3,
        exampleRuling ''B'' 0 30000000000 True (- 7),
        exampleRuling ''A'' 30000000000 60000000000 True 2,
        exampleRuling ''A'' 60000000000 90000000000 True (- 1),
        exampleRuling ''B'' 30000000000 60000000000 False 1,
        exampleRuling ''A'' 90000000000 120000000000 True 5]"
  let ?r0 = "exampleRuling ''A'' 0 30000000000 True 3"
  let ?rs = "[exampleRuling ''A'' 30000000000 60000000000 True 2]"
  let ?r1 = "exampleRuling ''A'' 60000000000 90000000000 True (- 1)"
  let ?r2 = "exampleRuling ''A'' 90000000000 120000000000 True 5"
  have inv: "\<forall>k sp. spans (spanCache exampleFilter) k = Some sp \<longrightarrow>
      span.Series sp = k \<and> Values sp \<noteq> []"
    by (simp add: exampleFilter_def)
  have none: "spans (spanCache exampleFilter) ''A'' = None"
    by (simp add: exampleFilter_def)
  have r0: "Anomalous ?r0" "getRulingValue exampleFilter ?r0 = Some (Inr 3)"
    by (simp_all add: getRulingValue_def exampleRuling_def exampleFilter_def)
  have run0: "list_all2 (\<lambda>r v. Anomalous r \<and> getRulingValue exampleFilter r = Some (Inr v) \<and>
      sameSign 3 v) ?rs [2]"
    by (simp add: getRulingValue_def exampleRuling_def exampleFilter_def sameSign_def)
  have r1: "Anomalous ?r1" "getRulingValue exampleFilter ?r1 = Some (Inr (- 1))"
    "\<not> sameSign (3::real) (- 1)"
    by (simp_all add: getRulingValue_def exampleRuling_def exampleFilter_def sameSign_def)
  have run1: "list_all2 (\<lambda>r v. Anomalous r \<and> getRulingValue exampleFilter r = Some (Inr v) \<and>
      sameSign (- 1) v) [] []"
    by simp
  have r2: "Anomalous ?r2" "getRulingValue exampleFilter ?r2 = Some (Inr 5)"
    "\<not> sameSign (- 1 :: real) 5"
    by (simp_all add: getRulingValue_def exampleRuling_def exampleFilter_def sameSign_def)
  have scoreA: "exampleStats (aggregator exampleFilter) [3, 2] = Inr 5"
    by (simp add: exampleStats_def exampleFilter_def)
  have scoreB: "exampleStats (aggregator exampleFilter) [- 1] = Inr (- 1)"
    by (simp add: exampleStats_def exampleFilter_def)
  note inst = gatherFilter_sign_runs
    [where stats = exampleStats and ?rs1.0 = "[]" and ?vs1.0 = "[]",
     OF inv none r0 run0 r1 run1 r2 scoreA scoreB]
  have fields: "\<forall>r\<in>set ?rulings. getRulingValue exampleFilter r \<noteq> None"
    by (simp add: getRulingValue_def exampleRuling_def exampleFilter_def)
  have proj: "filter (\<lambda>r. Window.Series (Window r) = ''A'') ?rulings = ?r0 # ?rs @ ?r1 # [] @ [?r2]"
    by (simp add: exampleRuling_def)
  from inst fields have "gatherFilter_Connect exampleStats exampleFilter ?rulings \<noteq> None"
    by blast
  then obtain f' out where
    ret: "gatherFilter_Connect exampleStats exampleFilter ?rulings = Some (f', out)"
    by (cases "gatherFilter_Connect exampleStats exampleFilter ?rulings") auto
  from inst proj ret
  have "filter (\<lambda>sp. span.Series sp = ''A'') out =
        [\<lparr>span.Series = ''A'', Values = [3, 2],
          span.Start = Window.Start (Window ?r0),
          span.End = Window.End (Window (last (?r0 # ?rs))),
          Duration = time_Sub (Window.End (Window (last (?r0 # ?rs)))) (Window.Start (Window ?r0)),
          Score = 5,
          span.Passthrough = Window.Passthrough (Window ?r0)\<rparr>,
         \<lparr>span.Series = ''A'', Values = [- 1],
          span.Start = Window.Start (Window ?r1),
          span.End = Window.End (Window (last (?r1 # []))),
          Duration = time_Sub (Window.End (Window (last (?r1 # [])))) (Window.Start (Window ?r1)),
          Score = - 1,
          span.Passthrough = Window.Passthrough (Window ?r1)\<rparr>] \<and>
      spans (spanCache f') ''A'' = Some (newSpan ''A'' 5 ?r2)"
    by blast
  then have "filter (\<lambda>sp. span.Series sp = ''A'') out =
       [\<lparr>span.Series = ''A'', Values = [3, 2], span.Start = 0, span.End = 60000000000,
         Duration = 60000000000, Score = 5, span.Passthrough = ()\<rparr>,
        \<lparr>span.Series = ''A'', Values = [- 1], span.Start = 60000000000,
         span.End = 90000000000, Duration = 30000000000, Score = - 1,
         span.Passthrough = ()\<rparr>] \<and>
     spans (spanCache f') ''A'' =
       Some \<lparr>span.Series = ''A'', Values = [5], span.Start = 90000000000,
             span.End = 120000000000, Duration = 0, Score = 0, span.Passthrough = ()\<rparr>"
    by (simp add: exampleRuling_def newSpan_def time_Sub_def minDuration_def maxDuration_def)
  with ret show ?thesis
    by blast
qed

section \<open>The bins that a span touches\<close>

lemma spanToBins_loop_returns:
  assumes "0 < d"
  shows "spanToBins_loop d e now bs =
           Some (bs @ map (\<lambda>k. now + int k * d) [0..<nat ((e - now) div d + 1)])"
proof (induction "nat (e - now + 1)" arbitrary: now bs rule: less_induct)
  case less
  show ?case
  proof (cases "e < now")
    case True
    then have "(e - now) div d < 0"
      using assms by (intro div_neg_pos_less0) simp_all
    with True show ?thesis
      by (subst spanToBins_loop.simps) (simp add: time_After_def)
  next
    case False
    then have nonneg: "0 \<le> (e - now) div d"
      using assms by (simp add: pos_imp_zdiv_nonneg_iff)
    have shift: "(e - (now + d)) div d = (e - now) div d - 1"
    proof -
      have "e - (now + d) = (e - now) + d * (- 1)" by (simp add: algebra_simps)
      moreover have "((e - now) + d * (- 1)) div d = - 1 + (e - now) div d"
        using assms by (intro div_mult_self2) simp
      ultimately show ?thesis by (simp only:)
    qed
    have "nat (e - (now + d) + 1) < nat (e - now + 1)"
      using False assms by simp
    then have IH: "spanToBins_loop d e (now + d) (bs @ [now]) =
        Some ((bs @ [now]) @ map (\<lambda>k. now + d + int k * d) [0..<nat ((e - (now + d)) div d + 1)])"
      by (rule less.hyps)
    have count: "nat ((e - now) div d + 1) = Suc (nat ((e - now) div d))"
      using nonneg by simp
    have "map (\<lambda>k. now + int k * d) [0..<Suc (nat ((e - now) div d))] =
        now # map (\<lambda>k. now + d + int k * d) [0..<nat ((e - now) div d)]"
      by (simp add: upt_conv_Cons map_Suc_upt [symmetric] algebra_simps del: upt_Suc)
    with False IH shift count show ?thesis
      by (subst spanToBins_loop.simps) (simp add: time_After_def time_Add_def)
  qed
qed

text \<open>
  With a bin width that is not positive the loop does not exit from a time that is not
  after the span's end.
\<close>

lemma spanToBins_loop_exits:
  assumes "spanToBins_loop d e now bs = Some r"
  shows "0 < d \<or> e < now"
proof (rule spanToBins_loop.raw_induct [where P = "\<lambda>d e now bs r. 0 < d \<or> e < now"])
  fix loop d e now bs and r :: "time list"
  assume IH: "\<And>d e now bs r. loop d e now bs = Some r \<Longrightarrow> 0 < d \<or> e < now"
    and step: "(if \<not> time_After now e then loop d e (time_Add now d) (bs @ [now])
                else Some bs) = Some r"
  show "0 < d \<or> e < now"
  proof (cases "e < now")
    case True
    then show ?thesis by simp
  next
    case False
    with step have "loop d e (now + d) (bs @ [now]) = Some r"
      by (simp add: time_After_def time_Add_def)
    then have "0 < d \<or> e < now + d"
      by (rule IH)
    with False show ?thesis by linarith
  qed
next
  show "spanToBins_loop d e now bs = Some r" by (rule assms)
qed

lemma spanToBins_loop_diverges:
  assumes "d \<le> 0" and "now \<le> e"
  shows "spanToBins_loop d e now bs = None"
proof (cases "spanToBins_loop d e now bs")
  case None
  then show ?thesis .
next
  case (Some r)
  then have "0 < d \<or> e < now" by (rule spanToBins_loop_exits)
  with assms show ?thesis by linarith
qed

lemma spanToBins_returns:
  assumes "0 < seconds (BinWidth (BinConfig f))"
  shows "spanToBins f sp =
           Some (map (\<lambda>k. time_Truncate (span.Start sp) (seconds (BinWidth (BinConfig f))) +
                        int k * seconds (BinWidth (BinConfig f)))
                   [0..<nat ((span.End sp -
                        time_Truncate (span.Start sp) (seconds (BinWidth (BinConfig f)))) div
                      seconds (BinWidth (BinConfig f)) + 1)])"
  using spanToBins_loop_returns [OF assms] by (simp add: spanToBins_def Let_def)

lemma binTimes_member:
  assumes "0 < d"
  shows "t \<in> set (map (\<lambda>k. t0 + int k * d) [0..<nat ((e - t0) div d + 1)]) \<longleftrightarrow>
           (\<exists>k::nat. t = t0 + int k * d) \<and> t \<le> e"
proof
  assume "t \<in> set (map (\<lambda>k. t0 + int k * d) [0..<nat ((e - t0) div d + 1)])"
  then have "t \<in> (\<lambda>k. t0 + int k * d) ` set [0..<nat ((e - t0) div d + 1)]"
    by (simp only: set_map)
  then obtain k where k: "t = t0 + int k * d" "k \<in> set [0..<nat ((e - t0) div d + 1)]"
    by (rule imageE)
  then have "int k \<le> (e - t0) div d" by simp
  then have "int k * d \<le> (e - t0) div d * d"
    using assms by (simp add: mult_right_mono)
  also have "\<dots> \<le> e - t0"
    using assms by (simp add: minus_mod_eq_div_mult [symmetric])
  finally show "(\<exists>k::nat. t = t0 + int k * d) \<and> t \<le> e"
    using k(1) by auto
next
  assume "(\<exists>k::nat. t = t0 + int k * d) \<and> t \<le> e"
  then obtain k :: nat where k: "t = t0 + int k * d" "t \<le> e"
    by blast
  then have "int k * d \<le> e - t0" by simp
  then have "int k * d div d \<le> (e - t0) div d"
    by (rule zdiv_mono1) (rule assms)
  then have "int k \<le> (e - t0) div d"
    using assms by simp
  then have "k < nat ((e - t0) div d + 1)"
    by simp
  with k(1) show "t \<in> set (map (\<lambda>k. t0 + int k * d) [0..<nat ((e - t0) div d + 1)])"
    by auto
qed

lemma binTimes_distinct:
  assumes "0 < d"
  shows "distinct (map (\<lambda>k. t0 + int k * d) [0..<n])"
  using assms by (simp add: distinct_map inj_on_def)

lemma touchBin_other:
  "t' \<noteq> t \<Longrightarrow> touchBin d series (f\<lparr>bins := (bins f)(t \<mapsto> b)\<rparr>) t' = touchBin d series f t'"
  by (simp add: touchBin_def)

lemma foldl_BinFilter_touch:
  assumes "distinct ts"
  shows "foldl (BinFilter_touch d series) (f, out) ts =
           (f\<lparr>bins := (\<lambda>t. if t \<in> set ts then Some (touchBin d series f t) else bins f t)\<rparr>,
            out @ map (touchBin d series f) ts)"
  using assms
proof (induction ts arbitrary: f out)
  case Nil
  then show ?case by simp
next
  case (Cons t ts)
  let ?f = "f\<lparr>bins := (bins f)(t \<mapsto> touchBin d series f t)\<rparr>"
  have same: "touchBin d series ?f t' = touchBin d series f t'" if "t' \<in> set ts" for t'
    using that Cons.prems by (intro touchBin_other) auto
  have "foldl (BinFilter_touch d series) (f, out) (t # ts) =
      foldl (BinFilter_touch d series) (?f, out @ [touchBin d series f t]) ts"
    by (simp add: BinFilter_touch_def Let_def)
  also have "\<dots> =
      (?f\<lparr>bins := (\<lambda>t'. if t' \<in> set ts then Some (touchBin d series ?f t') else bins ?f t')\<rparr>,
       (out @ [touchBin d series f t]) @ map (touchBin d series ?f) ts)"
    using Cons.prems by (intro Cons.IH) simp
  also have "map (touchBin d series ?f) ts = map (touchBin d series f) ts"
    using same by (intro map_cong) simp_all
  also have "(\<lambda>t'. if t' \<in> set ts then Some (touchBin d series ?f t') else bins ?f t') =
      (\<lambda>t'. if t' \<in> set (t # ts) then Some (touchBin d series f t') else bins f t')"
    using same by (auto simp add: fun_eq_iff)
  finally show ?case by simp
qed

lemma touchBin_fields:
  "Bin.Count (touchBin d series f t) = (case bins f t of None \<Rightarrow> 0 | Some b \<Rightarrow> Bin.Count b) + 1"
  "Entries (touchBin d series f t) = (case bins f t of None \<Rightarrow> [] | Some b \<Rightarrow> Entries b) @ [series]"
  "Bin.Start (touchBin d series f t) = (case bins f t of None \<Rightarrow> t | Some b \<Rightarrow> Bin.Start b)"
  "Bin.End (touchBin d series f t) = (case bins f t of None \<Rightarrow> t + d | Some b \<Rightarrow> Bin.End b)"
  by (simp_all add: touchBin_def time_Add_def split: option.split)

lemma BinFilter_step_returns:
  assumes "0 < seconds (BinWidth (BinConfig f))"
  shows "BinFilter_step f sp =
    Some (f\<lparr>bins := (\<lambda>t. if t \<in> set (the (spanToBins f sp))
                        then Some (touchBin (seconds (BinWidth (BinConfig f))) (span.Series sp) f t)
                        else bins f t)\<rparr>,
          map (touchBin (seconds (BinWidth (BinConfig f))) (span.Series sp) f) (the (spanToBins f sp)))"
proof -
  have "distinct (the (spanToBins f sp))"
    using assms by (simp add: spanToBins_returns binTimes_distinct)
  then show ?thesis
    using assms by (simp add: BinFilter_step_def spanToBins_returns foldl_BinFilter_touch Let_def)
qed

lemma spanToBins_example:
  assumes "BinWidth (BinConfig f) = 60"
    and "span.Start sp = day * (86400 * Second)"
    and "span.End sp = day * (86400 * Second) + 150 * Second"
  shows "spanToBins f sp =
    Some [day * (86400 * Second), day * (86400 * Second) + 60 * Second,
          day * (86400 * Second) + 120 * Second]"
proof -
  have d: "seconds (BinWidth (BinConfig f)) = 60000000000"
    using assms(1) by (simp add: seconds_eq Second_def)
  have "day * 86400000000000 = day * 1440 * 60000000000" by simp
  then have "(day * 86400000000000) mod 60000000000 = 0"
    by (simp only: mod_mult_self2_is_0)
  then have t0: "time_Truncate (span.Start sp) 60000000000 = day * 86400000000000"
    using assms(2) by (simp add: time_Truncate_def Second_def)
  have n: "nat ((span.End sp - day * 86400000000000) div 60000000000 + 1) = 3"
    using assms(3) by (simp add: Second_def)
  have "[0..<3] = [0, 1, 2]" by (simp add: upt_rec)
  then show ?thesis
    using spanToBins_returns [of f sp] by (simp add: d t0 n Second_def)
qed

text \<open>
  C4. With a positive bin width \<open>d\<close> (the duration the code computes from the configured
  seconds), \<^verbatim>\<open>spanToBins\<close> returns the bin starts \<open>t0\<close>, \<open>t0 + d\<close>, \<open>t0 + 2 * d\<close>, \<dots>
  from \<open>t0\<close>, the span's start truncated to the bin width, in this order: exactly the
  times \<open>t0 + k * d\<close> that do not exceed the span's end. Processing the span touches
  these bins and no other, once each and in this order: each touch sends the snapshot of
  the bin after the touch and stores it, and the bin after the touch is the bin before
  (or the new bin from \<open>t\<close> to \<open>t + d\<close> with no entries) with the count incremented and
  the span's series appended. For a bin width of 60 seconds and a span from 00:00:00 to
  00:02:30 of any day the bin starts are 00:00:00, 00:01:00 and 00:02:00 of that day
  (three touches).
\<close>

theorem BinFilter_touches_bins:
  fixes f :: BinFilter and sp :: "('v, 'p) span"
  defines "d \<equiv> seconds (BinWidth (BinConfig f))"
  defines "t0 \<equiv> time_Truncate (span.Start sp) d"
  defines "ts \<equiv> map (\<lambda>k. t0 + int k * d) [0..<nat ((span.End sp - t0) div d + 1)]"
  assumes pos: "0 < d"
  shows "spanToBins f sp = Some ts \<and>
    (\<forall>t. t \<in> set ts \<longleftrightarrow> (\<exists>k::nat. t = t0 + int k * d) \<and> t \<le> span.End sp) \<and>
    BinFilter_step f sp =
      Some (f\<lparr>bins := (\<lambda>t. if t \<in> set ts then Some (touchBin d (span.Series sp) f t)
                          else bins f t)\<rparr>,
            map (touchBin d (span.Series sp) f) ts) \<and>
    (\<forall>t. Bin.Count (touchBin d (span.Series sp) f t) =
            (case bins f t of None \<Rightarrow> 0 | Some b \<Rightarrow> Bin.Count b) + 1 \<and>
         Entries (touchBin d (span.Series sp) f t) =
            (case bins f t of None \<Rightarrow> [] | Some b \<Rightarrow> Entries b) @ [span.Series sp] \<and>
         Bin.Start (touchBin d (span.Series sp) f t) =
            (case bins f t of None \<Rightarrow> t | Some b \<Rightarrow> Bin.Start b) \<and>
         Bin.End (touchBin d (span.Series sp) f t) =
            (case bins f t of None \<Rightarrow> t + d | Some b \<Rightarrow> Bin.End b)) \<and>
    (BinWidth (BinConfig f) = 60 \<longrightarrow>
       (\<forall>day. span.Start sp = day * (86400 * Second) \<longrightarrow>
              span.End sp = day * (86400 * Second) + 150 * Second \<longrightarrow>
              ts = [day * (86400 * Second), day * (86400 * Second) + 60 * Second,
                    day * (86400 * Second) + 120 * Second]))"
proof -
  have bins: "spanToBins f sp = Some ts"
    using pos unfolding d_def t0_def ts_def by (rule spanToBins_returns)
  have member: "\<forall>t. t \<in> set ts \<longleftrightarrow> (\<exists>k::nat. t = t0 + int k * d) \<and> t \<le> span.End sp"
    unfolding ts_def using binTimes_member [OF pos] by blast
  have step: "BinFilter_step f sp =
      Some (f\<lparr>bins := (\<lambda>t. if t \<in> set ts then Some (touchBin d (span.Series sp) f t)
                          else bins f t)\<rparr>,
            map (touchBin d (span.Series sp) f) ts)"
    using BinFilter_step_returns [of f sp] pos bins unfolding d_def by simp
  have example: "BinWidth (BinConfig f) = 60 \<longrightarrow>
       (\<forall>day. span.Start sp = day * (86400 * Second) \<longrightarrow>
              span.End sp = day * (86400 * Second) + 150 * Second \<longrightarrow>
              ts = [day * (86400 * Second), day * (86400 * Second) + 60 * Second,
                    day * (86400 * Second) + 120 * Second])"
    using spanToBins_example [of f sp] bins by auto
  from bins member step example show ?thesis
    by (simp only: touchBin_fields) simp
qed

lemma upt_0_3: "[0..<3] = [0, 1, 2]"
  by (simp add: upt_rec)

theorem BinFilter_touches_bins_witness:
  "0 < seconds (BinWidth (BinConfig \<lparr>bins = Map.empty, BinConfig = \<lparr>BinWidth = 60\<rparr>\<rparr>)) \<and>
   map_option snd (BinFilter_step \<lparr>bins = Map.empty, BinConfig = \<lparr>BinWidth = 60\<rparr>\<rparr>
     \<lparr>span.Series = ''A'', Values = [3::real], span.Start = 0, span.End = 150000000000,
      Duration = 150000000000, Score = 3, span.Passthrough = ()\<rparr>) =
   Some [\<lparr>Bin.Start = 0, Bin.End = 60000000000, Count = 1, Entries = [''A'']\<rparr>,
         \<lparr>Bin.Start = 60000000000, Bin.End = 120000000000, Count = 1, Entries = [''A'']\<rparr>,
         \<lparr>Bin.Start = 120000000000, Bin.End = 180000000000, Count = 1, Entries = [''A'']\<rparr>]"
  using BinFilter_touches_bins
    [of "\<lparr>bins = Map.empty, BinConfig = \<lparr>BinWidth = 60\<rparr>\<rparr>"
        "\<lparr>span.Series = ''A'', Values = [3::real], span.Start = 0, span.End = 150000000000,
          Duration = 150000000000, Score = 3, span.Passthrough = ()\<rparr>"]
  by (simp add: seconds_eq Second_def time_Truncate_def touchBin_def time_Add_def upt_0_3)

section \<open>The count of a bin snapshot\<close>

lemma touchBin_counted:
  assumes "\<forall>t b. bins f t = Some b \<longrightarrow> snapshotCounted b"
  shows "snapshotCounted (touchBin d series f t)"
proof (cases "bins f t")
  case None
  then show ?thesis
    by (simp add: snapshotCounted_def touchBin_fields)
next
  case (Some b)
  with assms have "snapshotCounted b" by blast
  with Some show ?thesis
    by (simp add: snapshotCounted_def touchBin_fields)
qed

lemma BinFilter_touch_counted:
  assumes "\<forall>t b. bins f t = Some b \<longrightarrow> snapshotCounted b"
    and "\<forall>b\<in>set out. snapshotCounted b"
  shows "(\<forall>t' b. bins (fst (BinFilter_touch d series (f, out) t)) t' = Some b \<longrightarrow>
            snapshotCounted b) \<and>
         (\<forall>b\<in>set (snd (BinFilter_touch d series (f, out) t)).
            snapshotCounted b)"
proof -
  have new: "snapshotCounted (touchBin d series f t)"
    by (rule touchBin_counted [OF assms(1)])
  have eq: "BinFilter_touch d series (f, out) t =
      (f\<lparr>bins := (bins f)(t \<mapsto> touchBin d series f t)\<rparr>, out @ [touchBin d series f t])"
    by (simp add: BinFilter_touch_def Let_def)
  have "snapshotCounted b"
    if "bins (f\<lparr>bins := (bins f)(t \<mapsto> touchBin d series f t)\<rparr>) t' = Some b" for t' b
  proof (cases "t' = t")
    case True
    with that new show ?thesis by simp
  next
    case False
    with that have "bins f t' = Some b" by simp
    with assms(1) show ?thesis by blast
  qed
  moreover have "snapshotCounted b" if "b \<in> set (out @ [touchBin d series f t])" for b
  proof (cases "b \<in> set out")
    case True
    with assms(2) show ?thesis by blast
  next
    case False
    with that have "b = touchBin d series f t" by simp
    with new show ?thesis by simp
  qed
  ultimately show ?thesis
    unfolding eq fst_conv snd_conv by blast
qed

lemma foldl_BinFilter_touch_counted:
  assumes "\<forall>t b. bins f t = Some b \<longrightarrow> snapshotCounted b"
    and "\<forall>b\<in>set out. snapshotCounted b"
  shows "(\<forall>t' b. bins (fst (foldl (BinFilter_touch d series) (f, out) ts)) t' = Some b \<longrightarrow>
            snapshotCounted b) \<and>
         (\<forall>b\<in>set (snd (foldl (BinFilter_touch d series) (f, out) ts)).
            snapshotCounted b)"
  using assms
proof (induction ts arbitrary: f out)
  case Nil
  then show ?case by (simp only: foldl_Nil fst_conv snd_conv)
next
  case (Cons t ts)
  obtain f1 out1 where t1: "BinFilter_touch d series (f, out) t = (f1, out1)"
    by (cases "BinFilter_touch d series (f, out) t")
  have "(\<forall>t' b. bins f1 t' = Some b \<longrightarrow> snapshotCounted b) \<and>
        (\<forall>b\<in>set out1. snapshotCounted b)"
    using BinFilter_touch_counted [OF Cons.prems, of d series t]
    unfolding t1 fst_conv snd_conv .
  then have f1: "\<forall>t' b. bins f1 t' = Some b \<longrightarrow> snapshotCounted b"
    and out1: "\<forall>b\<in>set out1. snapshotCounted b"
    by blast+
  show ?case
    using Cons.IH [OF f1 out1] by (simp only: foldl_Cons t1)
qed

lemma BinFilter_step_counted:
  assumes "\<forall>t b. bins f t = Some b \<longrightarrow> snapshotCounted b"
    and "BinFilter_step f sp = Some (f', out)"
  shows "(\<forall>t b. bins f' t = Some b \<longrightarrow> snapshotCounted b) \<and>
         (\<forall>b\<in>set out. snapshotCounted b)"
proof -
  from assms(2) obtain ts where fold:
    "foldl (BinFilter_touch (seconds (BinWidth (BinConfig f))) (span.Series sp)) (f, []) ts = (f', out)"
    by (auto simp add: BinFilter_step_def Let_def split: option.splits)
  have empty: "\<forall>b\<in>set []. snapshotCounted b"
    by simp
  show ?thesis
    using foldl_BinFilter_touch_counted [OF assms(1) empty,
      of "seconds (BinWidth (BinConfig f))" "span.Series sp" ts]
    unfolding fold fst_conv snd_conv .
qed

lemma BinFilter_Connect_counted:
  assumes "\<forall>t b. bins f t = Some b \<longrightarrow> snapshotCounted b"
    and "BinFilter_Connect f sps = Some (f', out)"
  shows "(\<forall>t b. bins f' t = Some b \<longrightarrow> snapshotCounted b) \<and>
         (\<forall>b\<in>set out. snapshotCounted b)"
  using assms
proof (induction sps arbitrary: f out)
  case Nil
  from Nil.prems(2) have "f' = f" "out = []" by simp_all
  with Nil.prems(1) show ?case by (simp only: list.set) blast
next
  case (Cons sp sps)
  from Cons.prems(2) obtain f1 out1 outs where
    s1: "BinFilter_step f sp = Some (f1, out1)"
    and rest: "BinFilter_Connect f1 sps = Some (f', outs)"
    and out: "out = out1 @ outs"
    by (auto split: option.splits)
  from BinFilter_step_counted [OF Cons.prems(1) s1]
  have f1: "\<forall>t b. bins f1 t = Some b \<longrightarrow> snapshotCounted b"
    and out1: "\<forall>b\<in>set out1. snapshotCounted b"
    by blast+
  from Cons.IH [OF f1 rest]
  have f': "\<forall>t b. bins f' t = Some b \<longrightarrow> snapshotCounted b"
    and outs: "\<forall>b\<in>set outs. snapshotCounted b"
    by blast+
  have "\<forall>b\<in>set (out1 @ outs). snapshotCounted b"
    using out1 outs by (simp only: set_append) blast
  with f' show ?case
    unfolding out by blast
qed

lemma BinFilter_Connect_returns:
  assumes "0 < seconds (BinWidth (BinConfig f))"
  shows "\<exists>f' out. BinFilter_Connect f sps = Some (f', out)"
  using assms
proof (induction sps arbitrary: f)
  case Nil
  then show ?case by simp
next
  case (Cons sp sps)
  from BinFilter_step_returns [OF Cons.prems, of sp]
  obtain f1 out1 where s1: "BinFilter_step f sp = Some (f1, out1)"
    and cfg: "BinConfig f1 = BinConfig f"
    by simp
  from Cons.IH [of f1] Cons.prems cfg
  obtain f' outs where "BinFilter_Connect f1 sps = Some (f', outs)"
    by auto
  with s1 show ?case by simp
qed

text \<open>
  C10. From the filter that \<^verbatim>\<open>Init\<close> returns, every snapshot that \<^verbatim>\<open>Connect\<close> sends
  has a count of at least one, equal to the length of its list of series; with a
  positive bin width \<^verbatim>\<open>Connect\<close> gets through every list of spans. The invariant is
  preserved by every touch: from a filter whose bins all satisfy it, the bins after the
  touch and the snapshot sent satisfy it.
\<close>

theorem BinFilter_snapshots_counted:
  assumes "BinFilter_Init config = Inr f"
  shows "(\<forall>f' out. BinFilter_Connect f sps = Some (f', out) \<longrightarrow>
            (\<forall>b\<in>set out. snapshotCounted b)) \<and>
         (0 < seconds (BinWidth config) \<longrightarrow> (\<exists>f' out. BinFilter_Connect f sps = Some (f', out))) \<and>
         (\<forall>g out d series t.
            (\<forall>t b. bins g t = Some b \<longrightarrow> snapshotCounted b) \<and>
            (\<forall>b\<in>set out. snapshotCounted b) \<longrightarrow>
            (\<forall>t' b. bins (fst (BinFilter_touch d series (g, out) t)) t' = Some b \<longrightarrow>
               snapshotCounted b) \<and>
            (\<forall>b\<in>set (snd (BinFilter_touch d series (g, out) t)).
               snapshotCounted b))"
proof -
  from assms have f: "f = \<lparr>bins = Map.empty, BinConfig = config\<rparr>"
    by (simp add: BinFilter_Init_def split: if_splits)
  then have inv: "\<forall>t b. bins f t = Some b \<longrightarrow> snapshotCounted b"
    by simp
  have emitted: "\<forall>f' out. BinFilter_Connect f sps = Some (f', out) \<longrightarrow>
      (\<forall>b\<in>set out. snapshotCounted b)"
    using BinFilter_Connect_counted [OF inv] by blast
  have returns: "0 < seconds (BinWidth config) \<longrightarrow>
      (\<exists>f' out. BinFilter_Connect f sps = Some (f', out))"
    using BinFilter_Connect_returns [of f sps] f by simp
  from emitted returns show ?thesis
    using BinFilter_touch_counted by blast
qed

theorem BinFilter_snapshots_counted_witness:
  "BinFilter_Init \<lparr>BinWidth = 60\<rparr> = Inr \<lparr>bins = Map.empty, BinConfig = \<lparr>BinWidth = 60\<rparr>\<rparr> \<and>
   map_option snd (BinFilter_Connect \<lparr>bins = Map.empty, BinConfig = \<lparr>BinWidth = 60\<rparr>\<rparr>
     [\<lparr>span.Series = ''A'', Values = [3::real], span.Start = 0, span.End = 150000000000,
       Duration = 150000000000, Score = 3, span.Passthrough = ()\<rparr>,
      \<lparr>span.Series = ''B'', Values = [- 1], span.Start = 60000000000,
       span.End = 70000000000, Duration = 10000000000, Score = - 1,
       span.Passthrough = ()\<rparr>]) =
   Some [\<lparr>Bin.Start = 0, Bin.End = 60000000000, Count = 1, Entries = [''A'']\<rparr>,
         \<lparr>Bin.Start = 60000000000, Bin.End = 120000000000, Count = 1, Entries = [''A'']\<rparr>,
         \<lparr>Bin.Start = 120000000000, Bin.End = 180000000000, Count = 1, Entries = [''A'']\<rparr>,
         \<lparr>Bin.Start = 60000000000, Bin.End = 120000000000, Count = 2,
          Entries = [''A'', ''B'']\<rparr>] \<and>
   list_all snapshotCounted
        [\<lparr>Bin.Start = 0, Bin.End = 60000000000, Count = 1, Entries = [''A'']\<rparr>,
         \<lparr>Bin.Start = 60000000000, Bin.End = 120000000000, Count = 1, Entries = [''A'']\<rparr>,
         \<lparr>Bin.Start = 120000000000, Bin.End = 180000000000, Count = 1, Entries = [''A'']\<rparr>,
         \<lparr>Bin.Start = 60000000000, Bin.End = 120000000000, Count = 2,
          Entries = [''A'', ''B'']\<rparr>]"
proof -
  let ?f = "\<lparr>bins = Map.empty, BinConfig = \<lparr>BinWidth = 60\<rparr>\<rparr>"
  let ?sps = "[\<lparr>span.Series = ''A'', Values = [3::real], span.Start = 0, span.End = 150000000000,
       Duration = 150000000000, Score = 3, span.Passthrough = ()\<rparr>,
      \<lparr>span.Series = ''B'', Values = [- 1], span.Start = 60000000000,
       span.End = 70000000000, Duration = 10000000000, Score = - 1,
       span.Passthrough = ()\<rparr>]"
  let ?out = "[\<lparr>Bin.Start = 0, Bin.End = 60000000000, Count = 1, Entries = [''A'']\<rparr>,
         \<lparr>Bin.Start = 60000000000, Bin.End = 120000000000, Count = 1, Entries = [''A'']\<rparr>,
         \<lparr>Bin.Start = 120000000000, Bin.End = 180000000000, Count = 1, Entries = [''A'']\<rparr>,
         \<lparr>Bin.Start = 60000000000, Bin.End = 120000000000, Count = 2,
          Entries = [''A'', ''B'']\<rparr>]"
  have init: "BinFilter_Init \<lparr>BinWidth = 60\<rparr> = Inr ?f"
    by (simp add: BinFilter_Init_def)
  have run: "map_option snd (BinFilter_Connect ?f ?sps) = Some ?out"
    by (simp add: BinFilter_step_def spanToBins_def spanToBins_loop_returns seconds_eq
        Second_def time_Truncate_def BinFilter_touch_def touchBin_def time_Add_def Let_def
        upt_0_3)
  then obtain f' where "BinFilter_Connect ?f ?sps = Some (f', ?out)"
    by (cases "BinFilter_Connect ?f ?sps") auto
  with BinFilter_snapshots_counted [OF init, of ?sps]
  have "\<forall>b\<in>set ?out. snapshotCounted b"
    by blast
  then have "list_all snapshotCounted ?out"
    by (simp only: list_all_iff)
  with init run show ?thesis
    by blast
qed

end
